theory Spec2Isabelle
  imports Main "HOL-Library.Char_ord" "HOL-Library.List_Lexorder"
begin

section \<open>Replies of the automation library\<close>

text \<open>
  The scripts drive a browser through an automation library and await every call.
  An awaited call either returns a value or rejects with an \<^verbatim>\<open>Error\<close>; the scripts
  only ever read \<^verbatim>\<open>error.message\<close>. A reply is therefore \<open>Inl m\<close> (rejected with
  message \<open>m\<close>) or \<open>Inr v\<close> (returned \<open>v\<close>).

  The browser itself is not part of the repository. Its answers enter the model as
  data: every function below receives, for each call the script makes, the reply the
  library gave to that call. Console output has no counterpart here. A fixed delay
  (\<^verbatim>\<open>page.waitForTimeout\<close>) inside a \<^verbatim>\<open>try\<close> block is left out: should it reject, the
  handler that catches the calls around it catches it too. The delay that follows a
  scenario's \<^verbatim>\<open>catch\<close> is outside that handler, and its reply is part of the model.
\<close>

type_synonym message = string

type_synonym 'a reply = "message + 'a"

definition returned :: "'a reply \<Rightarrow> bool" where
  "returned r = (case r of Inl e \<Rightarrow> False | Inr v \<Rightarrow> True)"

definition and_then :: "'a reply \<Rightarrow> ('a \<Rightarrow> 'b reply) \<Rightarrow> 'b reply" where
  "and_then r f = (case r of Inl e \<Rightarrow> Inl e | Inr v \<Rightarrow> f v)"

definition or_else :: "'a reply \<Rightarrow> (message \<Rightarrow> 'a) \<Rightarrow> 'a" where
  \<comment> \<open>\<^verbatim>\<open>promise.catch(e => ...)\<close> where the handler returns a plain value\<close>
  "or_else r h = (case r of Inl e \<Rightarrow> h e | Inr v \<Rightarrow> v)"

fun in_sequence :: "unit reply list \<Rightarrow> unit reply" where
  \<comment> \<open>\<^verbatim>\<open>await a; await b; ...\<close>: the first rejection leaves the block\<close>
  "in_sequence [] = Inr ()"
| "in_sequence (r # rs) = (case r of Inl e \<Rightarrow> Inl e | Inr u \<Rightarrow> in_sequence rs)"

section \<open>Selector fallback loops\<close>

text \<open>
  A candidate is one selector of a fallback list together with what the page answered
  when the loop reached it: the reply of \<^verbatim>\<open>locator(selector).first().isVisible(...)\<close>
  and the reply of the action (\<^verbatim>\<open>click()\<close> or \<^verbatim>\<open>fill(value)\<close>) on that element.
\<close>

record candidate =
  selector :: string
  isVisible :: "bool reply"
  action :: "unit reply"

text \<open>
  The journal lists the action calls a loop made on its candidates, in order, each with
  whether the call returned (\<open>True\<close>) or rejected (\<open>False\<close>).
\<close>

datatype act = Act (target: string) (completed: bool)

datatype control = Break | Continue

text \<open>
  The passport validation script, \<^verbatim>\<open>initialStartSelectors\<close>, \<^verbatim>\<open>inputSelectors\<close> and
  \<^verbatim>\<open>submitSelectors\<close> loops:
  \<^verbatim>\<open>
  let startClicked = false;
  for (const selector of initialStartSelectors) {
    try {
      const startButton = await page.locator(selector).first();
      if (await startButton.isVisible({ timeout: 3000 })) {
        await startButton.click();
        startClicked = true;
        await page.waitForTimeout(2000);
        break;
      }
    } catch (e) { continue; }
  }\<close>
  The state is the flag and the journal. \<open>try_candidate\<close> is the body of the
  \<^verbatim>\<open>try\<close>: it returns how the block was left, and the state as it was at that moment.
\<close>

definition try_candidate :: "candidate \<Rightarrow> bool \<times> act list \<Rightarrow> control reply \<times> (bool \<times> act list)" where
  "try_candidate c st =
     (case isVisible c of
        Inl e \<Rightarrow> (Inl e, st)
      | Inr False \<Rightarrow> (Inr Continue, st)
      | Inr True \<Rightarrow>
          (case action c of
             Inl e \<Rightarrow> (Inl e, (fst st, snd st @ [Act (selector c) False]))
           | Inr u \<Rightarrow> (Inr Break, (True, snd st @ [Act (selector c) True]))))"

fun fallback_loop :: "candidate list \<Rightarrow> bool \<times> act list \<Rightarrow> bool \<times> act list" where
  "fallback_loop [] st = st"
| "fallback_loop (c # cs) st =
     (case try_candidate c st of
        (Inl e, st') \<Rightarrow> fallback_loop cs st'
      | (Inr Break, st') \<Rightarrow> st'
      | (Inr Continue, st') \<Rightarrow> fallback_loop cs st')"

definition startClicked :: "candidate list \<Rightarrow> bool \<times> act list" where
  "startClicked initialStartSelectors = fallback_loop initialStartSelectors (False, [])"

definition inputFilled :: "candidate list \<Rightarrow> bool \<times> act list" where
  "inputFilled inputSelectors = fallback_loop inputSelectors (False, [])"

text \<open>
  The passport navigation script, \<^verbatim>\<open>collectibleSelectors\<close> loop:
  \<^verbatim>\<open>
  let clicked = false;
  for (const selector of collectibleSelectors) {
    const element = page.locator(selector).first();
    if (await element.isVisible({ timeout: 1000 }).catch(() => false)) {
      try {
        await element.click({ timeout: 3000 });
        const currentUrl = page.url();
        if (currentUrl !== '.../collection') {
          clicked = true;
          ... scrolling ...
          const backButton = page.locator('...').first();
          if (await backButton.isVisible({ timeout: 2000 }).catch(() => false)) {
            await backButton.click();
          } else {
            await page.locator('text=Collection').first().click({ force: true });
          }
          break;
        }
      } catch (error) { console.log(...); }
    }
  }\<close>
  The scrolling helpers catch their own errors and return nothing. Besides the three
  replies of a candidate, the page answers here with the URL after the click and with
  the replies on the way back to the collection page.
\<close>

record collectible = candidate +
  urlAfterClick :: string
  backVisible :: "bool reply"
  backClick :: "unit reply"
  collectionClick :: "unit reply"

definition collectionUrl :: string where
  "collectionUrl = ''https://passport.poap.studio/version-32bmw/collection/custom-demo-flow-1/collection''"

definition goBack :: "collectible \<Rightarrow> unit reply" where
  "goBack c = (if or_else (backVisible c) (\<lambda>e. False) then backClick c else collectionClick c)"

definition try_collectible :: "collectible \<Rightarrow> bool \<times> act list \<Rightarrow> control reply \<times> (bool \<times> act list)" where
  "try_collectible c st =
     (case action c of
        Inl e \<Rightarrow> (Inl e, (fst st, snd st @ [Act (selector c) False]))
      | Inr u \<Rightarrow>
          (if urlAfterClick c \<noteq> collectionUrl
           then (case goBack c of
                   Inl e \<Rightarrow> (Inl e, (True, snd st @ [Act (selector c) True]))
                 | Inr u \<Rightarrow> (Inr Break, (True, snd st @ [Act (selector c) True])))
           else (Inr Continue, (fst st, snd st @ [Act (selector c) True]))))"

fun collectible_loop :: "collectible list \<Rightarrow> bool \<times> act list \<Rightarrow> bool \<times> act list" where
  "collectible_loop [] st = st"
| "collectible_loop (c # cs) st =
     (if or_else (isVisible c) (\<lambda>e. False)
      then (case try_collectible c st of
              (Inl e, st') \<Rightarrow> collectible_loop cs st'
            | (Inr Break, st') \<Rightarrow> st'
            | (Inr Continue, st') \<Rightarrow> collectible_loop cs st')
      else collectible_loop cs st)"

text \<open>Vocabulary for stating what the loops do.\<close>

definition visible :: "'a candidate_scheme \<Rightarrow> bool" where
  "visible c = (isVisible c = Inr True)"

definition acted :: "'a candidate_scheme \<Rightarrow> bool" where
  "acted c = returned (action c)"

definition journal_entry :: "'a candidate_scheme \<Rightarrow> act" where
  "journal_entry c = Act (selector c) (returned (action c))"

definition opened :: "collectible \<Rightarrow> bool" where
  \<comment> \<open>the click returned and the page left the collection URL\<close>
  "opened c = (returned (action c) \<and> urlAfterClick c \<noteq> collectionUrl)"

definition settled :: "collectible \<Rightarrow> bool" where
  \<comment> \<open>... and the way back returned as well: the \<^verbatim>\<open>break\<close> is reached\<close>
  "settled c = (opened c \<and> returned (goBack c))"

fun upto_first :: "('a \<Rightarrow> bool) \<Rightarrow> 'a list \<Rightarrow> 'a list" where
  \<comment> \<open>the prefix of a list up to and including its first element with \<open>P\<close>\<close>
  "upto_first P [] = []"
| "upto_first P (x # xs) = (if P x then [x] else x # upto_first P xs)"

section \<open>Results objects\<close>

text \<open>
  The results are plain JavaScript objects built from object literals whose values are
  strings, \<^verbatim>\<open>null\<close> or further such objects. An object is the list of its own
  properties in creation order. (No key used by the scripts is an array index, for
  which the engine would order differently.)
\<close>

datatype jsval = JNull | JString string | JObject "(string \<times> jsval) list"

fun assign :: "(string \<times> jsval) list \<Rightarrow> string \<Rightarrow> jsval \<Rightarrow> (string \<times> jsval) list" where
  \<comment> \<open>\<^verbatim>\<open>obj[key] = value\<close>: an existing property keeps its place\<close>
  "assign [] k v = [(k, v)]"
| "assign ((k', v') # ps) k v = (if k' = k then (k', v) # ps else (k', v') # assign ps k v)"

text \<open>
  \<^verbatim>\<open>testResults[deviceName] = {}\<close> creates the device's object, and every later
  \<^verbatim>\<open>testResults[deviceName][key] = value\<close> of the same iteration writes to that object.
  The model keeps the writes of an iteration in the order they happen; the object is
  what they leave behind.
\<close>

type_synonym writes = "(string \<times> jsval) list"

definition object_of :: "writes \<Rightarrow> (string \<times> jsval) list" where
  "object_of ws = foldl (\<lambda>obj (k, v). assign obj k v) [] ws"

definition toJS :: "string option \<Rightarrow> jsval" where
  "toJS x = (case x of None \<Rightarrow> JNull | Some s \<Rightarrow> JString s)"

definition template :: "string option \<Rightarrow> string" where
  \<comment> \<open>\<^verbatim>\<open>`${x}`\<close> for a value that is a string or \<^verbatim>\<open>null\<close>\<close>
  "template x = (case x of None \<Rightarrow> ''null'' | Some s \<Rightarrow> s)"

definition truthy :: "string option \<Rightarrow> bool" where
  \<comment> \<open>\<^verbatim>\<open>if (x)\<close> for a value that is a string or \<^verbatim>\<open>null\<close>\<close>
  "truthy x = (case x of None \<Rightarrow> False | Some s \<Rightarrow> s \<noteq> [])"

definition status_of :: "jsval \<Rightarrow> string option" where
  "status_of v = (case v of
                    JObject ps \<Rightarrow> (case map_of ps ''status'' of Some (JString s) \<Rightarrow> Some s | _ \<Rightarrow> None)
                  | _ \<Rightarrow> None)"

section \<open>File names\<close>

function show_nat :: "nat \<Rightarrow> string" where
  \<comment> \<open>\<^verbatim>\<open>String(n)\<close> for a non-negative integer\<close>
  "show_nat n = (if n < 10 then [char_of (48 + n)] else show_nat (n div 10) @ [char_of (48 + n mod 10)])"
  by pat_completeness auto
termination
  by (relation "measure id") auto

declare show_nat.simps [simp del]

definition padStart :: "nat \<Rightarrow> char \<Rightarrow> string \<Rightarrow> string" where
  "padStart targetLength c s = replicate (targetLength - length s) c @ s"

record clock =
  getDate :: nat
  getMonth :: nat
  getFullYear :: nat

definition getFormattedDate :: "clock \<Rightarrow> string" where
  "getFormattedDate now =
     (let day = padStart 2 CHR ''0'' (show_nat (getDate now));
          month = padStart 2 CHR ''0'' (show_nat (getMonth now + 1));
          year = getFullYear now
      in day @ ''-'' @ month @ ''-'' @ show_nat year)"

definition toLowerCase :: "string \<Rightarrow> string" where
  \<comment> \<open>on ASCII, which the device names are\<close>
  "toLowerCase s = map (\<lambda>c. if CHR ''A'' \<le> c \<and> c \<le> CHR ''Z'' then char_of (of_char c + (32::nat)) else c) s"

definition is_space :: "char \<Rightarrow> bool" where
  \<comment> \<open>the ASCII characters of the class \<^verbatim>\<open>\s\<close>\<close>
  "is_space c = (c \<in> {CHR '' '', CHR 0x09, CHR 0x0A, CHR 0x0B, CHR 0x0C, CHR 0x0D})"

fun replace_spaces :: "bool \<Rightarrow> string \<Rightarrow> string" where
  \<comment> \<open>\<^verbatim>\<open>.replace(/\s+/g, '-')\<close>; the flag says that the previous character was a space\<close>
  "replace_spaces inRun [] = []"
| "replace_spaces inRun (c # cs) =
     (if is_space c then (if inRun then replace_spaces True cs else CHR ''-'' # replace_spaces True cs)
      else c # replace_spaces False cs)"

definition replace_plus :: "string \<Rightarrow> string" where
  \<comment> \<open>\<^verbatim>\<open>.replace(/\+/g, '-plus')\<close>\<close>
  "replace_plus s = concat (map (\<lambda>c. if c = CHR ''+'' then ''-plus'' else [c]) s)"

definition deviceToFilename :: "string \<Rightarrow> string" where
  "deviceToFilename deviceName = replace_plus (replace_spaces False (toLowerCase deviceName))"

section \<open>The video directory\<close>

text \<open>
  A directory is the list of its file names, as \<^verbatim>\<open>fs.readdir\<close> returns it.
  \<^verbatim>\<open>
  const files = await fs.readdir(videoDir);
  const latestVideo = files.filter(f => f.endsWith('.webm')).sort().pop();
  if (latestVideo) {
    const newVideoName = `${deviceFilename}-${formattedDate}.webm`;
    await fs.rename(path.join(videoDir, latestVideo), path.join(videoDir, newVideoName));
  }\<close>
  \<^verbatim>\<open>sort()\<close> without a comparator orders strings by code unit, which on the ASCII
  names at hand is the lexicographic order of \<open>string\<close>.
\<close>

definition endsWith :: "string \<Rightarrow> string \<Rightarrow> bool" where
  "endsWith s suffix = (length suffix \<le> length s \<and> drop (length s - length suffix) s = suffix)"

definition latestVideo :: "string list \<Rightarrow> string option" where
  "latestVideo files =
     (case sort (filter (\<lambda>f. endsWith f ''.webm'') files) of
        [] \<Rightarrow> None
      | w # ws \<Rightarrow> Some (last (w # ws)))"

definition rename :: "string list \<Rightarrow> string \<Rightarrow> string \<Rightarrow> string list" where
  \<comment> \<open>\<^verbatim>\<open>fs.rename\<close> inside one directory: a file of the new name is replaced\<close>
  "rename files oldName newName = List.insert newName (removeAll oldName files)"

definition newVideoName :: "string \<Rightarrow> string \<Rightarrow> string" where
  "newVideoName deviceFilename formattedDate = deviceFilename @ ''-'' @ formattedDate @ ''.webm''"

definition newVideoName_passport :: "string \<Rightarrow> string \<Rightarrow> string" where
  \<comment> \<open>the passport scripts: \<^verbatim>\<open>`passport-${deviceFilename}-${formattedDate}.webm`\<close>\<close>
  "newVideoName_passport deviceFilename formattedDate =
     ''passport-'' @ deviceFilename @ ''-'' @ formattedDate @ ''.webm''"

definition rename_video :: "string list \<Rightarrow> string \<Rightarrow> string list" where
  "rename_video files newName =
     (case latestVideo files of
        None \<Rightarrow> files
      | Some latest \<Rightarrow> if latest = [] then files else rename files latest newName)"

definition save_video :: "string list \<Rightarrow> string \<Rightarrow> string list" where
  \<comment> \<open>closing the context leaves the recording in the directory\<close>
  "save_video files f = List.insert f files"

section \<open>The multi-device form scripts\<close>

text \<open>
  Two scripts replay a scenario table on every device of a list. One judges a
  submission by whether the page redirected (its sixth device is Galaxy S21 Ultra), the
  other by the messages the page shows (its sixth device is Galaxy S24). The
  definitions of the first carry the suffix \<open>_redirect\<close>, those of the second
  \<open>_message\<close>; what they share carries none.
\<close>

record scenario =
  name :: string
  description :: string
  email :: "string option"
  expectError :: bool

record scenario_message = scenario +
  expectedErrorText :: "string option"

definition devicesToTest_redirect :: "string list" where
  "devicesToTest_redirect =
     [''iPhone SE'', ''iPhone 13 Pro'', ''iPhone 14 Pro Max'', ''Pixel 5'', ''Galaxy S9+'',
      ''Galaxy S21 Ultra'']"

definition devicesToTest_message :: "string list" where
  "devicesToTest_message =
     [''iPhone SE'', ''iPhone 13 Pro'', ''iPhone 14 Pro Max'', ''Pixel 5'', ''Galaxy S9+'',
      ''Galaxy S24'']"

definition testScenarios_redirect :: "scenario list" where
  "testScenarios_redirect =
     [\<lparr>name = ''already-used-email'', description = ''Already used email'',
       email = Some ''test@example.com'', expectError = True\<rparr>,
      \<lparr>name = ''bad-format-email'', description = ''Bad format email'',
       email = Some ''notanemail'', expectError = True\<rparr>,
      \<lparr>name = ''invalid-eth'', description = ''Invalid ETH address'',
       email = Some ''0xfmifeo'', expectError = True\<rparr>,
      \<lparr>name = ''invalid-ens'', description = ''Invalid ENS domain'',
       email = Some ''cuchipando..eth'', expectError = True\<rparr>,
      \<lparr>name = ''valid-unique-email'', description = ''Valid unique email'',
       email = None, expectError = False\<rparr>]"

definition testScenarios_message :: "scenario_message list" where
  "testScenarios_message =
     [\<lparr>name = ''already-used-email'', description = ''Already used email'',
       email = Some ''test@example.com'', expectError = True,
       expectedErrorText = Some ''You already have this collectible''\<rparr>,
      \<lparr>name = ''bad-format-email'', description = ''Bad format email'',
       email = Some ''notanemail'', expectError = True,
       expectedErrorText = Some ''Wrong format''\<rparr>,
      \<lparr>name = ''invalid-eth'', description = ''Invalid ETH address'',
       email = Some ''0xfmifeo'', expectError = True,
       expectedErrorText = Some ''valid ETH''\<rparr>,
      \<lparr>name = ''invalid-ens'', description = ''Invalid ENS domain'',
       email = Some ''cuchipando..eth'', expectError = True,
       expectedErrorText = Some ''valid ENS''\<rparr>,
      \<lparr>name = ''valid-unique-email'', description = ''Valid unique email'',
       email = None, expectError = False, expectedErrorText = None\<rparr>]"

text \<open>
  What the page answers during one scenario on one device. Inside a scenario no call is
  made twice with the same arguments, so a reply per call and argument describes any
  run. \<open>page_\<close> fields are methods of \<^verbatim>\<open>page\<close>, \<open>locator_\<close> fields methods of
  \<^verbatim>\<open>page.locator(selector)\<close> as the browser answers them for a selector the library
  can read, and \<open>frame_\<close> fields the two waits that the library's \<^verbatim>\<open>waitForURL\<close> is
  made of. \<open>frame_url\<close> is the address when \<^verbatim>\<open>waitForURL\<close> is called, \<open>page_url\<close> the
  address that \<^verbatim>\<open>page.url()\<close> gives once the waiting is over, and
  \<open>page_waitForTimeout\<close> the reply to the delay after the scenario's \<^verbatim>\<open>catch\<close>.
\<close>

record page =
  page_goto :: "string \<Rightarrow> unit reply"
  page_click :: "string \<Rightarrow> unit reply"
  page_fill :: "string \<Rightarrow> string \<Rightarrow> unit reply"
  frame_url :: string
  frame_waitForLoadState :: "unit reply"
  frame_waitForNavigation :: "unit reply"
  page_url :: string
  page_screenshot :: "string \<Rightarrow> unit reply"
  page_waitForTimeout :: "unit reply"
  locator_selectOption :: "string \<Rightarrow> string \<Rightarrow> unit reply"
  locator_waitFor :: "string \<Rightarrow> unit reply"
  locator_click :: "string \<Rightarrow> unit reply"
  locator_isVisible :: "string \<Rightarrow> bool reply"
  locator_textContent :: "string \<Rightarrow> string option reply"

subsection \<open>What the library does with a selector and with a URL predicate\<close>

text \<open>
  Two calls of the scripts are decided inside the automation library, before the
  browser is asked anything. Both are modelled after the library.

  A selector without \<^verbatim>\<open>>>\<close> names its engine before the first \<^verbatim>\<open>=\<close>, when what stands
  there is made of letters, digits and \<^verbatim>\<open>_ - + : *\<close> only; a selector in quotes is a
  text selector, one that starts like a path an XPath selector, and any other a CSS
  selector. A leading \<^verbatim>\<open>*\<close> of the name marks a capture and is not part of it. A locator
  whose engine the library does not know rejects every call.
\<close>

definition engine_letter :: "char \<Rightarrow> bool" where
  "engine_letter c =
     ((CHR ''a'' \<le> c \<and> c \<le> CHR ''z'') \<or> (CHR ''A'' \<le> c \<and> c \<le> CHR ''Z'')
      \<or> (CHR ''0'' \<le> c \<and> c \<le> CHR ''9'') \<or> c \<in> set ''_-+:*'')"

definition trim :: "string \<Rightarrow> string" where
  "trim s = rev (dropWhile is_space (rev (dropWhile is_space s)))"

definition quoted :: "char \<Rightarrow> string \<Rightarrow> bool" where
  "quoted q part = (1 < length part \<and> hd part = q \<and> last part = q)"

definition path_like :: "string \<Rightarrow> bool" where
  \<comment> \<open>two slashes after any number of opening parentheses, or two dots at the start\<close>
  "path_like part =
     (take 2 (dropWhile (\<lambda>c. c = CHR ''('') part) = ''//'' \<or> take 2 part = ''..'')"

definition engine_of :: "string \<Rightarrow> string" where
  "engine_of sel =
     (let part = trim sel;
          before = trim (takeWhile (\<lambda>c. c \<noteq> CHR ''='') part)
      in if CHR ''='' \<in> set part \<and> before \<noteq> [] \<and> list_all engine_letter before
         then (if hd before = CHR ''*'' then tl before else before)
         else if quoted (CHR 0x22) part \<or> quoted (CHR 0x27) part then ''text''
         else if path_like part then ''xpath''
         else ''css'')"

definition engines :: "string list" where
  "engines =
     [''css'', ''css:light'', ''xpath'', ''xpath:light'', ''_react'', ''_vue'', ''text'', ''text:light'',
      ''id'', ''id:light'', ''data-testid'', ''data-testid:light'', ''data-test-id'',
      ''data-test-id:light'', ''data-test'', ''data-test:light'', ''nth'', ''visible'', ''role'',
      ''internal:control'', ''internal:has'', ''internal:has-not'', ''internal:has-text'',
      ''internal:has-not-text'', ''internal:and'', ''internal:or'', ''internal:chain'',
      ''internal:label'', ''internal:text'', ''internal:role'', ''internal:attr'', ''internal:testid'']"

definition unknown_engine :: "string \<Rightarrow> message" where
  \<open>unknown_engine sel =
     ''Unknown engine "'' @ engine_of sel @ ''" while parsing selector '' @ sel\<close>

definition page_locator_isVisible :: "page \<Rightarrow> string \<Rightarrow> bool reply" where
  \<comment> \<open>\<^verbatim>\<open>page.locator(selector).isVisible()\<close>\<close>
  "page_locator_isVisible p sel =
     (if engine_of sel \<in> set engines then locator_isVisible p sel
      else Inl (unknown_engine sel))"

definition page_locator_textContent :: "page \<Rightarrow> string \<Rightarrow> string option reply" where
  \<comment> \<open>\<^verbatim>\<open>page.locator(selector).textContent()\<close>\<close>
  "page_locator_textContent p sel =
     (if engine_of sel \<in> set engines then locator_textContent p sel
      else Inl (unknown_engine sel))"

text \<open>
  \<^verbatim>\<open>page.waitForURL(predicate, options)\<close> hands the predicate a \<^verbatim>\<open>URL\<close> object made from
  the page's address, never a string. When the predicate holds of the address the page
  already has, the call only waits for the load state; otherwise it waits for a
  navigation to an address of which the predicate holds.

  \<^verbatim>\<open>x !== s\<close> for a string \<^verbatim>\<open>s\<close> is false only when \<^verbatim>\<open>x\<close> is a string with the same
  characters.
\<close>

datatype operand = A_string string | A_URL string

definition strictly_unequal :: "operand \<Rightarrow> string \<Rightarrow> bool" where
  "strictly_unequal x s = (case x of A_string t \<Rightarrow> t \<noteq> s | A_URL href \<Rightarrow> True)"

definition page_waitForURL :: "page \<Rightarrow> (operand \<Rightarrow> bool) \<Rightarrow> unit reply" where
  "page_waitForURL p predicate =
     (if predicate (A_URL (frame_url p)) then frame_waitForLoadState p
      else frame_waitForNavigation p)"

text \<open>
  What the rest of the world answers during a run: the library's device registry, the
  browser when a context and a page are opened and closed for a device, the page in
  each scenario, the clock in each scenario, the file name the library gives the
  device's recording, and the message of the engine's \<^verbatim>\<open>TypeError\<close> for reading
  \<^verbatim>\<open>viewport\<close> of \<^verbatim>\<open>undefined\<close>. The configured device names are pairwise distinct,
  and so are the scenario names, so a reply per device name, or per device and
  scenario name, describes any run.
\<close>

type_synonym deviceConfig = "nat \<times> nat"

record env =
  devices :: "string \<Rightarrow> deviceConfig option"
  newContext :: "string \<Rightarrow> unit reply"
  addInitScript :: "string \<Rightarrow> unit reply"
  newPage :: "string \<Rightarrow> unit reply"
  page_in :: "string \<Rightarrow> string \<Rightarrow> page"
  Date_now :: "string \<Rightarrow> string \<Rightarrow> nat"
  page_close :: "string \<Rightarrow> unit reply"
  context_close :: "string \<Rightarrow> unit reply"
  video :: "string \<Rightarrow> string"
  viewport_TypeError :: message

definition originalUrl :: string where
  "originalUrl = ''https://mint.poap.studio/version-72bms/index-20/customdemoflow05''"

definition emailToUse :: "'a scenario_scheme \<Rightarrow> nat \<Rightarrow> string" where
  "emailToUse sc timestamp =
     (case email sc of None \<Rightarrow> ''test'' @ show_nat timestamp @ ''@example.com'' | Some e \<Rightarrow> e)"

definition select_dropdown :: "page \<Rightarrow> unit reply" where
  \<comment> \<open>the nested \<^verbatim>\<open>try\<close> around the dropdown: whatever is thrown is caught\<close>
  \<open>select_dropdown p =
     (case in_sequence [page_click p ''text="Select from the list"'', page_click p ''text="Option 1"''] of
        Inr u \<Rightarrow> Inr ()
      | Inl error \<Rightarrow>
          (case locator_selectOption p ''select'' ''Option 1'' of
             Inr u \<Rightarrow> Inr ()
           | Inl e \<Rightarrow> Inr ()))\<close>

definition submit_form :: "page \<Rightarrow> string \<Rightarrow> unit reply" where
  \<comment> \<open>from \<^verbatim>\<open>page.goto\<close> to the click on the Test button\<close>
  \<open>submit_form p emailText =
     in_sequence
       [page_goto p originalUrl,
        page_click p ''text="I want this"'',
        page_fill p ''input[name="name"], input[placeholder*="Name"], input[placeholder*="name"]''
          ''Juan Carlos'',
        page_fill p
          ''input[name="lastname"], input[name="lastName"], input[placeholder*="Last"], input[placeholder*="last"]''
          (''Rodr'' @ [CHR 0xC3, CHR 0xAD] @ ''guez''),
        page_fill p
          ''input[name="address"], input[placeholder*="Address"], input[placeholder*="address"]''
          ''123 Main Street, Apt 4B'',
        select_dropdown p,
        page_fill p
          ''input[name="email"], input[type="email"], input[placeholder*="Email"], input[placeholder*="email"], input[placeholder*="ETH"], input[placeholder*="ENS"]''
          emailText,
        locator_waitFor p ''text="Test"'',
        locator_click p ''text="Test"'']\<close>

text \<open>
  Every branch of the classification first takes its screenshot, if it takes one, and
  ends by storing an object literal under \<^verbatim>\<open>testResults[deviceName][scenario.name]\<close>.
  A verdict is that pair: the screenshot path, if any, and the object.
\<close>

type_synonym verdict = "string option \<times> jsval"

definition verdict_redirect :: "string \<Rightarrow> 'z scenario_scheme \<Rightarrow> bool \<Rightarrow> string \<Rightarrow> verdict" where
  "verdict_redirect deviceFilename sc redirected currentUrl =
     (if expectError sc then
        (if \<not> redirected \<and> currentUrl = originalUrl then
           (let screenshotPath = ''./screenshots/'' @ deviceFilename @ ''-'' @ name sc @ ''.png''
            in (Some screenshotPath,
                JObject [(''status'', JString ''pass''),
                         (''message'', JString ''Error detected as expected (form did not redirect)''),
                         (''screenshot'', JString screenshotPath)]))
         else
           (None,
            JObject [(''status'', JString ''fail''),
                     (''message'', JString ''Form redirected when it should have shown an error'')]))
      else
        (if redirected then
           (None,
            JObject [(''status'', JString ''pass''),
                     (''message'', JString ''Form submitted successfully and redirected''),
                     (''redirectUrl'', JString currentUrl)])
         else
           (let screenshotPath =
                  ''./screenshots/'' @ deviceFilename @ ''-'' @ name sc @ ''-unexpected-error.png''
            in (Some screenshotPath,
                JObject [(''status'', JString ''fail''),
                         (''message'', JString ''Form did not redirect when it should have succeeded''),
                         (''screenshot'', JString screenshotPath)]))))"

definition record_verdict :: "page \<Rightarrow> string \<Rightarrow> verdict \<Rightarrow> writes \<Rightarrow> unit reply \<times> writes" where
  "record_verdict p scenarioName v ws =
     (case (case fst v of None \<Rightarrow> Inr () | Some screenshotPath \<Rightarrow> page_screenshot p screenshotPath) of
        Inl e \<Rightarrow> (Inl e, ws)
      | Inr u \<Rightarrow> (Inr (), ws @ [(scenarioName, snd v)]))"

definition scenario_try_redirect ::
    "page \<Rightarrow> nat \<Rightarrow> string \<Rightarrow> 'z scenario_scheme \<Rightarrow> writes \<Rightarrow> unit reply \<times> writes" where
  "scenario_try_redirect p timestamp deviceFilename sc ws =
     (case submit_form p (emailToUse sc timestamp) of
        Inl e \<Rightarrow> (Inl e, ws)
      | Inr u \<Rightarrow>
          (let redirected =
                 (case page_waitForURL p (\<lambda>url. strictly_unequal url originalUrl) of
                    Inr u \<Rightarrow> True
                  | Inl error \<Rightarrow> False);
               currentUrl = page_url p
           in record_verdict p (name sc) (verdict_redirect deviceFilename sc redirected currentUrl) ws))"

definition error_outcome :: "message \<Rightarrow> jsval" where
  "error_outcome m = JObject [(''status'', JString ''error''), (''message'', JString m)]"

definition catch_scenario :: "string \<Rightarrow> unit reply \<times> writes \<Rightarrow> writes" where
  \<comment> \<open>the \<^verbatim>\<open>catch (error)\<close> of a scenario's \<^verbatim>\<open>try\<close>\<close>
  "catch_scenario scenarioName r =
     (case r of
        (Inr u, ws) \<Rightarrow> ws
      | (Inl m, ws) \<Rightarrow> ws @ [(scenarioName, error_outcome m)])"

text \<open>
  The scenario loop, the device loop and the handlers around them are the same text in
  both scripts; the scripts differ in the body of the scenario's \<^verbatim>\<open>try\<close> and in what
  happens when the registry has no entry for the device. The loops are written once,
  over the \<^verbatim>\<open>try\<close> body and the registry lookup.
\<close>

type_synonym 'z attempt = "page \<Rightarrow> nat \<Rightarrow> string \<Rightarrow> 'z scenario_scheme \<Rightarrow> writes \<Rightarrow> unit reply \<times> writes"

fun scenario_loop ::
    "'z attempt \<Rightarrow> env \<Rightarrow> string \<Rightarrow> 'z scenario_scheme list \<Rightarrow> writes \<Rightarrow> unit reply \<times> writes" where
  \<comment> \<open>the \<^verbatim>\<open>for\<close> over the scenarios: the \<^verbatim>\<open>try\<close> with its \<^verbatim>\<open>catch\<close>, then the delay\<close>
  "scenario_loop attempt e deviceName [] ws = (Inr (), ws)"
| "scenario_loop attempt e deviceName (sc # scs) ws =
     (let ws' = catch_scenario (name sc)
                  (attempt (page_in e deviceName (name sc)) (Date_now e deviceName (name sc))
                     (deviceToFilename deviceName) sc ws)
      in case page_waitForTimeout (page_in e deviceName (name sc)) of
           Inl m \<Rightarrow> (Inl m, ws')
         | Inr u \<Rightarrow> scenario_loop attempt e deviceName scs ws')"

definition lookup_redirect :: "env \<Rightarrow> string \<Rightarrow> deviceConfig reply" where
  \<comment> \<open>no check: the first use of a missing configuration throws\<close>
  "lookup_redirect e deviceName =
     (case devices e deviceName of
        None \<Rightarrow> Inl (viewport_TypeError e)
      | Some deviceConfig \<Rightarrow> Inr deviceConfig)"

definition lookup_message :: "env \<Rightarrow> string \<Rightarrow> deviceConfig reply" where
  \<comment> \<open>\<^verbatim>\<open>if (!deviceConfig) throw new Error(...)\<close>\<close>
  \<open>lookup_message e deviceName =
     (case devices e deviceName of
        None \<Rightarrow> Inl (''Device "'' @ deviceName @ ''" not found in Playwright devices'')
      | Some deviceConfig \<Rightarrow> Inr deviceConfig)\<close>

definition open_page :: "env \<Rightarrow> string \<Rightarrow> unit reply" where
  "open_page e deviceName =
     in_sequence [newContext e deviceName, addInitScript e deviceName, newPage e deviceName]"

definition close_page :: "env \<Rightarrow> string \<Rightarrow> unit reply" where
  "close_page e deviceName = in_sequence [page_close e deviceName, context_close e deviceName]"

definition device_try ::
    "(env \<Rightarrow> string \<Rightarrow> deviceConfig reply) \<Rightarrow> 'z attempt \<Rightarrow> env \<Rightarrow> string \<Rightarrow>
     'z scenario_scheme list \<Rightarrow> string \<Rightarrow> string list \<Rightarrow> unit reply \<times> (writes \<times> string list)" where
  "device_try lookup attempt e formattedDate scenarios deviceName files =
     (case lookup e deviceName of
        Inl m \<Rightarrow> (Inl m, ([], files))
      | Inr deviceConfig \<Rightarrow>
          (case open_page e deviceName of
             Inl m \<Rightarrow> (Inl m, ([], files))
           | Inr u \<Rightarrow>
               (case scenario_loop attempt e deviceName scenarios [] of
                  (Inl m, ws) \<Rightarrow> (Inl m, (ws, files))
                | (Inr u, ws) \<Rightarrow>
                    (case close_page e deviceName of
                       Inl m \<Rightarrow> (Inl m, (ws, files))
                     | Inr u \<Rightarrow>
                         (Inr (),
                          (ws,
                           rename_video (save_video files (video e deviceName))
                             (newVideoName (deviceToFilename deviceName) formattedDate)))))))"

definition device_writes ::
    "(env \<Rightarrow> string \<Rightarrow> deviceConfig reply) \<Rightarrow> 'z attempt \<Rightarrow> env \<Rightarrow> string \<Rightarrow>
     'z scenario_scheme list \<Rightarrow> string \<Rightarrow> string list \<Rightarrow> writes \<times> string list" where
  \<comment> \<open>the device's \<^verbatim>\<open>try\<close> with its \<^verbatim>\<open>catch\<close>: \<^verbatim>\<open>testResults[deviceName].error = error.message\<close>\<close>
  "device_writes lookup attempt e formattedDate scenarios deviceName files =
     (case device_try lookup attempt e formattedDate scenarios deviceName files of
        (Inr u, (ws, files')) \<Rightarrow> (ws, files')
      | (Inl m, (ws, files')) \<Rightarrow> (ws @ [(''error'', JString m)], files'))"

fun device_loop ::
    "(env \<Rightarrow> string \<Rightarrow> deviceConfig reply) \<Rightarrow> 'z attempt \<Rightarrow> env \<Rightarrow> string \<Rightarrow>
     'z scenario_scheme list \<Rightarrow> string list \<Rightarrow> (string \<times> jsval) list \<times> string list \<Rightarrow>
     (string \<times> jsval) list \<times> string list" where
  "device_loop lookup attempt e formattedDate scenarios [] st = st"
| "device_loop lookup attempt e formattedDate scenarios (deviceName # ds) (testResults, files) =
     (let (ws, files') = device_writes lookup attempt e formattedDate scenarios deviceName files
      in device_loop lookup attempt e formattedDate scenarios ds
           (assign testResults deviceName (JObject (object_of ws)), files'))"

definition run_redirect :: "env \<Rightarrow> clock \<Rightarrow> string list \<Rightarrow> (string \<times> jsval) list \<times> string list" where
  \<comment> \<open>the whole script, from an empty \<^verbatim>\<open>testResults\<close> and the video directory as found\<close>
  "run_redirect e now files =
     device_loop lookup_redirect scenario_try_redirect e (getFormattedDate now)
       testScenarios_redirect devicesToTest_redirect ([], files)"

subsection \<open>Judging by messages\<close>

definition successTexts :: "string list" where
  "successTexts =
     [''CONGRATULATIONS'', ''Congratulations'', ''You have just collected'', ''Custom Demo Flow'',
      ''Show Details'']"

definition errorTexts :: "string list" where
  "errorTexts =
     [''You already have this collectible'', ''Wrong format'', ''valid ETH'', ''valid ENS'',
      ''must use a valid'', ''Invalid'', ''Error'']"

fun find_success :: "page \<Rightarrow> string list \<Rightarrow> string option" where
  "find_success p [] = None"
| \<open>find_success p (successText # rest) =
     (if or_else (page_locator_isVisible p (''text="'' @ successText @ ''"'')) (\<lambda>e. False)
      then Some successText
      else find_success p rest)\<close>

fun find_error :: "page \<Rightarrow> string list \<Rightarrow> string option" where
  "find_error p [] = None"
| \<open>find_error p (errorText # rest) =
     (if or_else (page_locator_isVisible p (''text*="'' @ errorText @ ''"'')) (\<lambda>e. False)
      then (let fullText = or_else (page_locator_textContent p (''text*="'' @ errorText @ ''"''))
                             (\<lambda>e. Some errorText)
            in Some (if truthy fullText then template fullText else errorText))
      else find_error p rest)\<close>

definition verdict_message ::
    "string \<Rightarrow> 'z scenario_scheme \<Rightarrow> string option \<Rightarrow> string option \<Rightarrow> string \<Rightarrow> verdict" where
  "verdict_message deviceFilename sc foundSuccessMessage foundErrorMessage currentUrl =
     (let redirected = (currentUrl \<noteq> originalUrl) in
      if expectError sc then
        (if truthy foundErrorMessage then
           (let screenshotPath = ''./screenshots/'' @ deviceFilename @ ''-'' @ name sc @ ''.png''
            in (Some screenshotPath,
                JObject [(''status'', JString ''pass''),
                         (''message'', JString (''Error detected: '' @ template foundErrorMessage)),
                         (''screenshot'', JString screenshotPath),
                         (''errorMessage'', toJS foundErrorMessage)]))
         else if truthy foundSuccessMessage then
           (None,
            JObject [(''status'', JString ''fail''),
                     (''message'',
                      JString (''Form succeeded when it should have shown an error. Success message: ''
                               @ template foundSuccessMessage))])
         else if \<not> redirected then
           (let screenshotPath = ''./screenshots/'' @ deviceFilename @ ''-'' @ name sc @ ''.png''
            in (Some screenshotPath,
                JObject [(''status'', JString ''pass''),
                         (''message'', JString ''Form did not redirect (error assumed)''),
                         (''screenshot'', JString screenshotPath)]))
         else
           (None,
            JObject [(''status'', JString ''fail''),
                     (''message'', JString ''Form redirected when it should have shown an error''),
                     (''redirectUrl'', JString currentUrl)]))
      else
        (if truthy foundSuccessMessage \<and> \<not> truthy foundErrorMessage then
           (None,
            JObject [(''status'', JString ''pass''),
                     (''message'',
                      JString (''Form submitted successfully. Success message: '' @ template foundSuccessMessage)),
                     (''successMessage'', toJS foundSuccessMessage),
                     (''currentUrl'', JString currentUrl)])
         else if redirected \<and> \<not> truthy foundErrorMessage then
           (None,
            JObject [(''status'', JString ''pass''),
                     (''message'', JString ''Form submitted successfully and redirected''),
                     (''redirectUrl'', JString currentUrl)])
         else
           (let screenshotPath =
                  ''./screenshots/'' @ deviceFilename @ ''-'' @ name sc @ ''-unexpected-error.png''
            in (Some screenshotPath,
                JObject [(''status'', JString ''fail''),
                         (''message'',
                          JString (if truthy foundErrorMessage
                                   then ''Unexpected error: '' @ template foundErrorMessage
                                   else ''Form did not show success or redirect'')),
                         (''screenshot'', JString screenshotPath),
                         (''errorMessage'', toJS foundErrorMessage)]))))"

definition scenario_try_message ::
    "page \<Rightarrow> nat \<Rightarrow> string \<Rightarrow> 'z scenario_scheme \<Rightarrow> writes \<Rightarrow> unit reply \<times> writes" where
  "scenario_try_message p timestamp deviceFilename sc ws =
     (case submit_form p (emailToUse sc timestamp) of
        Inl e \<Rightarrow> (Inl e, ws)
      | Inr u \<Rightarrow>
          (let foundSuccessMessage = find_success p successTexts;
               foundErrorMessage = find_error p errorTexts;
               currentUrl = page_url p
           in record_verdict p (name sc)
                (verdict_message deviceFilename sc foundSuccessMessage foundErrorMessage currentUrl) ws))"

definition run_message :: "env \<Rightarrow> clock \<Rightarrow> string list \<Rightarrow> (string \<times> jsval) list \<times> string list" where
  "run_message e now files =
     device_loop lookup_message scenario_try_message e (getFormattedDate now)
       testScenarios_message devicesToTest_message ([], files)"

subsection \<open>The single-run form script\<close>

text \<open>
  \<^verbatim>\<open>
  if (foundSuccess && !foundError) { console.log('... TEST PASSED ...'); }
  else if (foundError) { console.log('... TEST FAILED: Errors found on page'); }
  else { console.log('... TEST UNCLEAR ...'); }\<close>
\<close>

datatype summary = TEST_PASSED | TEST_FAILED | TEST_UNCLEAR

definition final_summary :: "bool \<Rightarrow> bool \<Rightarrow> summary" where
  "final_summary foundSuccess foundError =
     (if foundSuccess \<and> \<not> foundError then TEST_PASSED
      else if foundError then TEST_FAILED
      else TEST_UNCLEAR)"

section \<open>The results file\<close>

text \<open>
  \<^verbatim>\<open>await fs.writeFile(resultsPath, JSON.stringify(testResults, null, 2));\<close>

  \<open>JSON_stringify\<close> is \<^verbatim>\<open>JSON.stringify(value, null, 2)\<close> on the values the results are
  made of: \<^verbatim>\<open>null\<close> prints as \<^verbatim>\<open>null\<close>, a string is quoted with the two-character
  escapes for quote, backslash, backspace, tab, line feed, form feed and carriage
  return and \<^verbatim>\<open>\u00XX\<close> for the other control characters, an object without
  properties prints as \<^verbatim>\<open>{}\<close>, and any other object puts each property on a line of
  its own, indented by two more spaces than the object, as \<^verbatim>\<open>"key": value\<close>.

  \<open>JSON_parse\<close> is \<^verbatim>\<open>JSON.parse\<close> on texts of that fragment of the grammar: white
  space, \<^verbatim>\<open>null\<close>, strings with their escapes (\<^verbatim>\<open>\uXXXX\<close> below 128 only) and objects,
  a repeated key keeping its first place and its last value. \<open>None\<close> stands for a
  syntax error and for a text outside the fragment alike. The recursion of the parser
  is bounded by a counter; \<open>JSON_parse\<close> starts it at the length of the text,
  which \<open>need_le_length\<close> below shows to be enough for every text that
  \<open>JSON_stringify\<close> produces.
\<close>

definition hex_digits :: string where
  "hex_digits = ''0123456789abcdef''"

definition escape_char :: "char \<Rightarrow> string" where
  "escape_char c =
     (if c = CHR 0x22 then [CHR 0x5C, CHR 0x22]
      else if c = CHR 0x5C then [CHR 0x5C, CHR 0x5C]
      else if c = CHR 0x08 then [CHR 0x5C, CHR ''b'']
      else if c = CHR 0x09 then [CHR 0x5C, CHR ''t'']
      else if c = CHR 0x0A then [CHR 0x5C, CHR ''n'']
      else if c = CHR 0x0C then [CHR 0x5C, CHR ''f'']
      else if c = CHR 0x0D then [CHR 0x5C, CHR ''r'']
      else if of_char c < (32::nat)
      then [CHR 0x5C, CHR ''u'', CHR ''0'', CHR ''0'',
            hex_digits ! (of_char c div 16), hex_digits ! (of_char c mod 16)]
      else [c])"

definition QuoteJSONString :: "string \<Rightarrow> string" where
  "QuoteJSONString s = CHR 0x22 # concat (map escape_char s) @ [CHR 0x22]"

definition indent :: "nat \<Rightarrow> string" where
  "indent n = replicate n CHR '' ''"

fun stringify :: "nat \<Rightarrow> jsval \<Rightarrow> string"
  and stringify_members :: "nat \<Rightarrow> (string \<times> jsval) list \<Rightarrow> string" where
  "stringify n JNull = ''null''"
| "stringify n (JString s) = QuoteJSONString s"
| "stringify n (JObject []) = ''{}''"
| "stringify n (JObject (p # ps)) =
     ''{'' @ [CHR 0x0A] @ indent (n + 2) @ stringify_members (n + 2) (p # ps) @ [CHR 0x0A] @ indent n @ ''}''"
| "stringify_members m [] = []"
| "stringify_members m ((k, v) # ps) =
     QuoteJSONString k @ '': '' @ stringify m v
     @ (if ps = [] then [] else '','' @ [CHR 0x0A] @ indent m @ stringify_members m ps)"

definition JSON_stringify :: "jsval \<Rightarrow> string" where
  "JSON_stringify v = stringify 0 v"

definition json_ws :: "char \<Rightarrow> bool" where
  "json_ws c = (c = CHR '' '' \<or> c = CHR 0x09 \<or> c = CHR 0x0A \<or> c = CHR 0x0D)"

definition skip_ws :: "string \<Rightarrow> string" where
  "skip_ws s = dropWhile json_ws s"

definition hex_value :: "char \<Rightarrow> nat option" where
  "hex_value c = map_of (zip ''0123456789abcdefABCDEF'' ([0..<16] @ [10..<16])) c"

definition unescape :: "char \<Rightarrow> char option" where
  "unescape c =
     (if c = CHR 0x22 then Some (CHR 0x22)
      else if c = CHR 0x5C then Some (CHR 0x5C)
      else if c = CHR ''/'' then Some CHR ''/''
      else if c = CHR ''b'' then Some (CHR 0x08)
      else if c = CHR ''f'' then Some (CHR 0x0C)
      else if c = CHR ''n'' then Some (CHR 0x0A)
      else if c = CHR ''r'' then Some (CHR 0x0D)
      else if c = CHR ''t'' then Some (CHR 0x09)
      else None)"

definition code_unit :: "char \<Rightarrow> char \<Rightarrow> char \<Rightarrow> char \<Rightarrow> char option" where
  "code_unit a b c d =
     (case (hex_value a, hex_value b, hex_value c, hex_value d) of
        (Some h3, Some h2, Some h1, Some h0) \<Rightarrow>
          (let n = ((h3 * 16 + h2) * 16 + h1) * 16 + h0 in if n < 128 then Some (char_of n) else None)
      | _ \<Rightarrow> None)"

fun parse_chars :: "string \<Rightarrow> (string \<times> string) option" where
  "parse_chars [] = None"
| "parse_chars (c # cs) =
     (if c = CHR 0x22 then Some ([], cs)
      else if c = CHR 0x5C then
        (case cs of
           [] \<Rightarrow> None
         | e # cs' \<Rightarrow>
             if e = CHR ''u'' then
               (case cs' of
                  h3 # h2 # h1 # h0 # rest \<Rightarrow>
                    (case code_unit h3 h2 h1 h0 of
                       None \<Rightarrow> None
                     | Some ch \<Rightarrow>
                         (case parse_chars rest of None \<Rightarrow> None | Some (t, r) \<Rightarrow> Some (ch # t, r)))
                | _ \<Rightarrow> None)
             else
               (case unescape e of
                  None \<Rightarrow> None
                | Some ch \<Rightarrow>
                    (case parse_chars cs' of None \<Rightarrow> None | Some (t, r) \<Rightarrow> Some (ch # t, r))))
      else if of_char c < (32::nat) then None
      else (case parse_chars cs of None \<Rightarrow> None | Some (t, r) \<Rightarrow> Some (c # t, r)))"

fun parse_value :: "nat \<Rightarrow> string \<Rightarrow> (jsval \<times> string) option"
  and parse_members :: "nat \<Rightarrow> (string \<times> jsval) list \<Rightarrow> string \<Rightarrow> (jsval \<times> string) option" where
  "parse_value 0 s = None"
| "parse_value (Suc n) s =
     (case skip_ws s of
        [] \<Rightarrow> None
      | c # r \<Rightarrow>
          if c = CHR 0x22 then
            (case parse_chars r of None \<Rightarrow> None | Some (t, r') \<Rightarrow> Some (JString t, r'))
          else if c = CHR ''{'' then
            (case skip_ws r of
               [] \<Rightarrow> None
             | c' # r' \<Rightarrow> if c' = CHR ''}'' then Some (JObject [], r') else parse_members n [] r)
          else if c = CHR ''n'' then
            (case r of
               u # l # l' # r' \<Rightarrow> if [u, l, l'] = ''ull'' then Some (JNull, r') else None
             | _ \<Rightarrow> None)
          else None)"
| "parse_members 0 acc s = None"
| "parse_members (Suc n) acc s =
     (case skip_ws s of
        [] \<Rightarrow> None
      | c # r \<Rightarrow>
          if c = CHR 0x22 then
            (case parse_chars r of
               None \<Rightarrow> None
             | Some (k, r1) \<Rightarrow>
                 (case skip_ws r1 of
                    [] \<Rightarrow> None
                  | c1 # r2 \<Rightarrow>
                      if c1 = CHR '':'' then
                        (case parse_value n r2 of
                           None \<Rightarrow> None
                         | Some (v, r3) \<Rightarrow>
                             (case skip_ws r3 of
                                [] \<Rightarrow> None
                              | c3 # r4 \<Rightarrow>
                                  if c3 = CHR '','' then parse_members n (assign acc k v) r4
                                  else if c3 = CHR ''}'' then Some (JObject (assign acc k v), r4)
                                  else None))
                      else None))
          else None)"

definition JSON_parse :: "string \<Rightarrow> jsval option" where
  "JSON_parse text =
     (case parse_value (length text) text of
        None \<Rightarrow> None
      | Some (v, rest) \<Rightarrow> if skip_ws rest = [] then Some v else None)"


fun need :: "jsval \<Rightarrow> nat" and need_members :: "(string \<times> jsval) list \<Rightarrow> nat" where
  "need JNull = 1"
| "need (JString s) = 1"
| "need (JObject ps) = Suc (need_members ps)"
| "need_members [] = 0"
| "need_members ((k, v) # ps) = Suc (need v + need_members ps)"

fun well_formed :: "jsval \<Rightarrow> bool" and well_formed_values :: "(string \<times> jsval) list \<Rightarrow> bool" where
  "well_formed JNull = True"
| "well_formed (JString s) = True"
| "well_formed (JObject ps) = (distinct (map fst ps) \<and> well_formed_values ps)"
| "well_formed_values [] = True"
| "well_formed_values ((k, v) # ps) = (well_formed v \<and> well_formed_values ps)"

section \<open>Vocabulary and example data\<close>

text \<open>
  \<open>script lookup attempt\<close> says that the two parameters of the loops are those of one
  of the two scripts. \<open>scenario_entries\<close> is what one iteration of the scenario loop
  writes when it starts from an empty list of writes. \<open>pause_rejects\<close> says that the
  delay after a scenario's \<^verbatim>\<open>catch\<close> rejects, and \<open>scenarios_run\<close> lists the scenarios
  whose iteration a device's sweep enters: none when the profile lookup or the opening
  of the page fails, otherwise the scenarios of the table up to and including the first
  one whose delay rejects.
\<close>

definition script_body :: "'z attempt \<Rightarrow> bool" where
  "script_body attempt = (attempt = scenario_try_redirect \<or> attempt = scenario_try_message)"

definition script :: "(env \<Rightarrow> string \<Rightarrow> deviceConfig reply) \<Rightarrow> 'z attempt \<Rightarrow> bool" where
  "script lookup attempt =
     ((lookup = lookup_redirect \<and> attempt = scenario_try_redirect) \<or>
      (lookup = lookup_message \<and> attempt = scenario_try_message))"

definition scenario_entries :: "'z attempt \<Rightarrow> env \<Rightarrow> string \<Rightarrow> 'z scenario_scheme \<Rightarrow> writes" where
  "scenario_entries attempt e deviceName sc =
     catch_scenario (name sc)
       (attempt (page_in e deviceName (name sc)) (Date_now e deviceName (name sc))
          (deviceToFilename deviceName) sc [])"

definition pause_rejects :: "env \<Rightarrow> string \<Rightarrow> 'z scenario_scheme \<Rightarrow> bool" where
  "pause_rejects e deviceName sc = (\<not> returned (page_waitForTimeout (page_in e deviceName (name sc))))"

definition scenarios_run ::
    "(env \<Rightarrow> string \<Rightarrow> deviceConfig reply) \<Rightarrow> env \<Rightarrow> string \<Rightarrow> 'z scenario_scheme list \<Rightarrow>
     'z scenario_scheme list" where
  "scenarios_run lookup e deviceName scs =
     (if returned (lookup e deviceName) \<and> returned (open_page e deviceName)
      then upto_first (pause_rejects e deviceName) scs
      else [])"

text \<open>
  The date format as the documentation words it, DD-MM-YYYY: two digits, two digits, four
  digits, joined by hyphens.
\<close>

definition two_digits :: "nat \<Rightarrow> string" where
  "two_digits n = [char_of (48 + n div 10), char_of (48 + n mod 10)]"

definition DD_MM_YYYY :: "nat \<Rightarrow> nat \<Rightarrow> nat \<Rightarrow> string" where
  "DD_MM_YYYY day month year =
     two_digits day @ ''-'' @ two_digits month @ ''-'' @ two_digits (year div 100) @ two_digits (year mod 100)"

text \<open>Candidates, pages and environments on which the theorems are exercised.\<close>

definition start_button :: candidate where
  \<open>start_button = \<lparr>selector = ''button:has-text("Start")'', isVisible = Inr True, action = Inr ()\<rparr>\<close>

definition any_button :: candidate where
  "any_button = \<lparr>selector = ''button'', isVisible = Inr True, action = Inr ()\<rparr>"

definition hidden_link :: candidate where
  \<open>hidden_link = \<lparr>selector = ''a:has-text("Start")'', isVisible = Inr False, action = Inr ()\<rparr>\<close>

definition broken_locator :: candidate where
  \<open>broken_locator =
     \<lparr>selector = ''[data-action="start"]'',
      isVisible = Inl ''locator.isVisible: Target page, context or browser has been closed'',
      action = Inr ()\<rparr>\<close>

definition collectible1 :: collectible where
  "collectible1 =
     \<lparr>selector = ''#collectible1'', isVisible = Inr True, action = Inr (),
      urlAfterClick = collectionUrl, backVisible = Inr True, backClick = Inr (),
      collectionClick = Inr ()\<rparr>"

definition collectible_any :: collectible where
  \<open>collectible_any =
     \<lparr>selector = ''[id*="collectible"]'', isVisible = Inr True, action = Inr (),
      urlAfterClick = collectionUrl, backVisible = Inr True, backClick = Inr (),
      collectionClick = Inr ()\<rparr>\<close>

definition page_stays :: page where
  \<comment> \<open>a loaded page on which every call returns, nothing the scripts look for is visible,
      and no navigation happens: the address stays the original one and a wait for a
      navigation times out\<close>
  "page_stays =
     \<lparr>page_goto = (\<lambda>u. Inr ()), page_click = (\<lambda>s. Inr ()), page_fill = (\<lambda>s v. Inr ()),
      frame_url = originalUrl, frame_waitForLoadState = Inr (),
      frame_waitForNavigation = Inl ''page.waitForURL: Timeout 10000ms exceeded.'',
      page_url = originalUrl, page_screenshot = (\<lambda>f. Inr ()), page_waitForTimeout = Inr (),
      locator_selectOption = (\<lambda>s l. Inr ()), locator_waitFor = (\<lambda>s. Inr ()),
      locator_click = (\<lambda>s. Inr ()), locator_isVisible = (\<lambda>s. Inr False),
      locator_textContent = (\<lambda>s. Inr None)\<rparr>"

definition page_both_messages :: page where
  \<comment> \<open>the page shows \<^verbatim>\<open>Congratulations\<close> and \<^verbatim>\<open>Wrong format\<close> at once: a text locator for
      either finds its element visible\<close>
  \<open>page_both_messages =
     page_stays
       \<lparr>locator_isVisible := (\<lambda>s. Inr (s = ''text="Wrong format"'' \<or> s = ''text="Congratulations"'')),
        locator_textContent := (\<lambda>s. Inr (Some ''Wrong format''))\<rparr>\<close>

definition closed_message :: message where
  "closed_message = ''Target page, context or browser has been closed''"

definition page_closed :: page where
  \<comment> \<open>the page is gone: every call rejects\<close>
  "page_closed =
     \<lparr>page_goto = (\<lambda>u. Inl closed_message), page_click = (\<lambda>s. Inl closed_message),
      page_fill = (\<lambda>s v. Inl closed_message),
      frame_url = originalUrl, frame_waitForLoadState = Inl closed_message,
      frame_waitForNavigation = Inl closed_message,
      page_url = originalUrl, page_screenshot = (\<lambda>f. Inl closed_message),
      page_waitForTimeout = Inl closed_message,
      locator_selectOption = (\<lambda>s l. Inl closed_message), locator_waitFor = (\<lambda>s. Inl closed_message),
      locator_click = (\<lambda>s. Inl closed_message), locator_isVisible = (\<lambda>s. Inl closed_message),
      locator_textContent = (\<lambda>s. Inl closed_message)\<rparr>"

definition today :: clock where
  "today = \<lparr>getDate = 2, getMonth = 10, getFullYear = 2026\<rparr>"

definition env_stays :: env where
  \<comment> \<open>every device is known and opens, and every scenario meets \<open>page_stays\<close>\<close>
  "env_stays =
     \<lparr>devices = (\<lambda>d. Some (390, 844)), newContext = (\<lambda>d. Inr ()), addInitScript = (\<lambda>d. Inr ()),
      newPage = (\<lambda>d. Inr ()), page_in = (\<lambda>d s. page_stays), Date_now = (\<lambda>d s. 1762119000000),
      page_close = (\<lambda>d. Inr ()), context_close = (\<lambda>d. Inr ()),
      video = (\<lambda>d. ''9b1c3f0e5a7d4c2e8f6a0b1d2c3e4f5a.webm''),
      viewport_TypeError =
        ''Cannot read properties of undefined (reading '' @ [CHR 0x27] @ ''viewport'' @ [CHR 0x27] @ '')''\<rparr>"

definition env_goto_fails :: env where
  "env_goto_fails =
     env_stays
       \<lparr>page_in := (\<lambda>d s. if s = ''invalid-eth''
                            then page_stays\<lparr>page_goto := (\<lambda>u. Inl ''page.goto: Timeout 60000ms exceeded.'')\<rparr>
                            else page_stays)\<rparr>"

definition env_page_closes :: env where
  \<comment> \<open>on Pixel 5 the page is lost during the second scenario, and is gone from then on\<close>
  "env_page_closes =
     env_stays
       \<lparr>page_in := (\<lambda>d s. if d = ''Pixel 5'' \<and> s \<noteq> ''already-used-email''
                            then page_closed else page_stays)\<rparr>"

definition env_s24_missing :: env where
  "env_s24_missing = env_stays\<lparr>devices := (\<lambda>d. if d = ''Galaxy S24'' then None else Some (390, 844))\<rparr>"

section \<open>What the fallback loops do\<close>

lemma fallback_loop_eq:
  "fallback_loop cs (f, jr) =
     (f \<or> list_ex acted (filter visible cs),
      jr @ map journal_entry (upto_first acted (filter visible cs)))"
proof (induction cs arbitrary: f jr)
  case Nil
  show ?case by simp
next
  case (Cons c cs)
  show ?case
  proof (cases "isVisible c")
    case (Inl e)
    then show ?thesis
      by (simp add: try_candidate_def visible_def Cons.IH)
  next
    case (Inr v)
    show ?thesis
    proof (cases v)
      case False
      with Inr show ?thesis
        by (simp add: try_candidate_def visible_def Cons.IH)
    next
      case True
      with Inr show ?thesis
        by (cases "action c")
           (simp_all add: try_candidate_def visible_def acted_def returned_def
              journal_entry_def Cons.IH)
    qed
  qed
qed

lemma collectible_loop_eq:
  "collectible_loop ks (f, jr) =
     (f \<or> list_ex opened (upto_first settled (filter visible ks)),
      jr @ map journal_entry (upto_first settled (filter visible ks)))"
proof (induction ks arbitrary: f jr)
  case Nil
  show ?case by simp
next
  case (Cons c cs)
  show ?case
  proof (cases "visible c")
    case False
    then have "or_else (isVisible c) (\<lambda>e. False) = False"
      by (cases "isVisible c") (auto simp: visible_def or_else_def)
    with False show ?thesis
      by (simp add: Cons.IH)
  next
    case True
    then have v: "or_else (isVisible c) (\<lambda>e. False) = True"
      by (simp add: visible_def or_else_def)
    show ?thesis
    proof (cases "action c")
      case (Inl e)
      with True v show ?thesis
        by (simp add: try_collectible_def Cons.IH settled_def opened_def returned_def
            journal_entry_def)
    next
      case (Inr u)
      show ?thesis
      proof (cases "urlAfterClick c = collectionUrl")
        case same: True
        with Inr True v show ?thesis
          by (simp add: try_collectible_def Cons.IH settled_def opened_def returned_def
              journal_entry_def)
      next
        case other: False
        with Inr True v show ?thesis
          by (cases "goBack c")
             (simp_all add: try_collectible_def Cons.IH settled_def opened_def returned_def
                journal_entry_def)
      qed
    qed
  qed
qed

lemma filter_upto_first:
  "filter P (upto_first P xs) = (if list_ex P xs then [last (upto_first P xs)] else [])"
  by (induction xs) auto

lemma upto_first_Nil [simp]: "upto_first P xs = [] \<longleftrightarrow> xs = []"
  by (cases xs) auto

lemma completed_journal_entry [simp]: "completed (journal_entry c) = acted c"
  by (simp add: journal_entry_def acted_def)

lemma completed_upto_first:
  "filter completed (map journal_entry (upto_first acted vs)) =
     (if list_ex acted vs then [last (map journal_entry (upto_first acted vs))] else [])"
proof -
  have "filter completed (map journal_entry (upto_first acted vs)) =
          map journal_entry (filter acted (upto_first acted vs))"
    by (simp add: filter_map comp_def)
  also have "\<dots> = (if list_ex acted vs then [last (map journal_entry (upto_first acted vs))] else [])"
    by (cases vs) (simp_all add: filter_upto_first last_map)
  finally show ?thesis .
qed

lemma upto_first_all:
  "list_all P vs \<Longrightarrow> upto_first P vs = take 1 vs"
  by (cases vs) auto

text \<open>
  C1. The claim: a fallback loop performs its action on at most one candidate, the first
  visible one in declared order, and exits right after it, so that no second candidate
  is ever acted on. The collectible loop does not: after a click that returns it leaves
  the loop only if the page URL is no longer the collection URL. Two visible candidates
  whose clicks return without leaving the collection page are both clicked.
\<close>

theorem collectible_loop_clicks_two_candidates:
  \<open>collectible_loop [collectible1, collectible_any] (False, []) =
     (False, [Act ''#collectible1'' True, Act ''[id*="collectible"]'' True])
   \<and> length (filter completed (snd (collectible_loop [collectible1, collectible_any] (False, [])))) = 2\<close>
  by (simp add: collectible1_def collectible_any_def try_collectible_def or_else_def)

text \<open>
  C1, as the code has it. Candidates are tried in declared order, and a candidate whose
  visibility check answers false or throws gets no action. In the start, input and
  submit loops the action is called on the visible candidates in order, up to and
  including the first whose call returns; there the loop exits. So at most one action
  completes, it is the last one called, and the flag says whether there is one; when no
  call throws, the first visible candidate is the only one acted on. In the collectible
  loop the click is called on the visible candidates in order, up to and including the
  first whose click returns, leaves the collection URL and is followed by a way back
  that returns; a click that returns without leaving the collection URL does not end
  the loop.
\<close>

theorem fallback_loops_act_until_settled:
  fixes cs :: "candidate list" and ks :: "collectible list"
  shows "fallback_loop cs (False, []) =
           (list_ex acted (filter visible cs),
            map journal_entry (upto_first acted (filter visible cs)))
       \<and> filter completed (snd (fallback_loop cs (False, []))) =
           (if fst (fallback_loop cs (False, []))
            then [last (snd (fallback_loop cs (False, [])))] else [])
       \<and> (list_all acted (filter visible cs) \<longrightarrow>
            snd (fallback_loop cs (False, [])) =
              map journal_entry (take 1 (filter visible cs)))
       \<and> collectible_loop ks (False, []) =
           (list_ex opened (upto_first settled (filter visible ks)),
            map journal_entry (upto_first settled (filter visible ks)))"
  by (simp add: fallback_loop_eq collectible_loop_eq completed_upto_first upto_first_all)

theorem fallback_loops_act_until_settled_witness:
  \<open>list_all acted (filter visible [hidden_link, start_button, any_button])
   \<and> fallback_loop [hidden_link, start_button, any_button] (False, []) =
       (True, [Act ''button:has-text("Start")'' True])\<close>
proof -
  let ?cs = "[hidden_link, start_button, any_button]"
  have vis: "filter visible ?cs = [start_button, any_button]"
    by (simp add: hidden_link_def start_button_def any_button_def visible_def)
  have ok: "acted start_button" "acted any_button"
    by (simp_all add: start_button_def any_button_def acted_def returned_def)
  have all: "list_all acted (filter visible ?cs)"
    unfolding vis using ok by simp
  have entry: \<open>journal_entry start_button = Act ''button:has-text("Start")'' True\<close>
    by (simp add: journal_entry_def start_button_def returned_def)
  from fallback_loops_act_until_settled [of ?cs "[]"]
  have "fallback_loop ?cs (False, []) =
          (list_ex acted (filter visible ?cs), map journal_entry (upto_first acted (filter visible ?cs)))"
    by (rule conjunct1)
  then have \<open>fallback_loop ?cs (False, []) = (True, [Act ''button:has-text("Start")'' True])\<close>
    unfolding vis using ok entry by simp
  with all show ?thesis by (rule conjI)
qed

text \<open>
  C4. When no candidate of the list is visible (each visibility check answers false or
  throws), the loop ends with the flag false, it has called the action on no element,
  and nothing is thrown out of it: the loop's value is the flag and the journal, and the
  journal is empty.
\<close>

theorem no_visible_candidate_no_action:
  assumes "\<forall>c\<in>set cs. isVisible c \<noteq> Inr True"
  shows "startClicked cs = (False, []) \<and> inputFilled cs = (False, [])"
proof -
  from assms have "filter visible cs = []"
    by (induction cs) (auto simp: visible_def)
  then show ?thesis
    by (simp add: startClicked_def inputFilled_def fallback_loop_eq)
qed

theorem no_visible_candidate_no_action_witness:
  "isVisible hidden_link \<noteq> Inr True \<and> isVisible broken_locator \<noteq> Inr True
   \<and> startClicked [hidden_link, broken_locator] = (False, [])
   \<and> inputFilled [hidden_link, broken_locator] = (False, [])"
proof -
  have h: "\<forall>c\<in>set [hidden_link, broken_locator]. isVisible c \<noteq> Inr True"
    by (simp add: hidden_link_def broken_locator_def)
  from no_visible_candidate_no_action [OF h] h show ?thesis by simp
qed

section \<open>Writes, objects and the two loops\<close>

lemma select_dropdown_returns [simp]: "select_dropdown p = Inr ()"
  by (simp add: select_dropdown_def split: sum.splits)

lemma map_of_assign: "map_of (assign ps k v) = (map_of ps)(k \<mapsto> v)"
  by (induction ps) (auto simp: fun_eq_iff)

lemma keys_assign:
  "map fst (assign ps k v) = (if k \<in> fst ` set ps then map fst ps else map fst ps @ [k])"
  by (induction ps) force+

lemma assign_fresh: "k \<notin> fst ` set ps \<Longrightarrow> assign ps k v = ps @ [(k, v)]"
  by (induction ps) auto

lemma foldl_assign_distinct:
  "distinct (map fst (acc @ ws)) \<Longrightarrow> foldl (\<lambda>obj (k, v). assign obj k v) acc ws = acc @ ws"
proof (induction ws arbitrary: acc)
  case Nil
  show ?case by simp
next
  case (Cons w ws)
  obtain k v where w: "w = (k, v)" by (cases w)
  from Cons.prems w have fresh: "k \<notin> fst ` set acc" by auto
  from Cons.prems w have "distinct (map fst ((acc @ [(k, v)]) @ ws))" by auto
  from Cons.IH [OF this] fresh w show ?case
    by (simp add: assign_fresh)
qed

lemma object_of_distinct: "distinct (map fst ws) \<Longrightarrow> object_of ws = ws"
  using foldl_assign_distinct [of "[]" ws] by (simp add: object_of_def)

lemma record_verdict_cases:
  "record_verdict p k v ws =
     (case (case fst v of None \<Rightarrow> Inr () | Some path \<Rightarrow> page_screenshot p path) of
        Inl e \<Rightarrow> (Inl e, ws) | Inr u \<Rightarrow> (Inr (), ws @ [(k, snd v)]))"
  by (simp add: record_verdict_def)

lemma catch_record_verdict:
  "catch_scenario k (record_verdict p k v ws) = ws @ catch_scenario k (record_verdict p k v [])"
  by (simp add: record_verdict_def catch_scenario_def split: sum.splits option.splits)

lemma catch_redirect:
  "catch_scenario (name sc) (scenario_try_redirect p t dfn sc ws) =
     ws @ catch_scenario (name sc) (scenario_try_redirect p t dfn sc [])"
proof (cases "submit_form p (emailToUse sc t)")
  case (Inl m)
  then show ?thesis by (simp add: scenario_try_redirect_def catch_scenario_def)
next
  case (Inr u)
  then show ?thesis
    using catch_record_verdict[of "name sc" p _ ws]
    by (simp add: scenario_try_redirect_def Let_def)
qed

lemma catch_message:
  "catch_scenario (name sc) (scenario_try_message p t dfn sc ws) =
     ws @ catch_scenario (name sc) (scenario_try_message p t dfn sc [])"
proof (cases "submit_form p (emailToUse sc t)")
  case (Inl m)
  then show ?thesis by (simp add: scenario_try_message_def catch_scenario_def)
next
  case (Inr u)
  then show ?thesis
    using catch_record_verdict[of "name sc" p _ ws]
    by (simp add: scenario_try_message_def Let_def)
qed

lemma one_write_record_verdict:
  "\<exists>v. catch_scenario k (record_verdict p k vd []) = [(k, v)]"
  by (simp add: record_verdict_def catch_scenario_def split: sum.splits option.splits)

lemma one_write_redirect:
  "\<exists>v. catch_scenario (name sc) (scenario_try_redirect p t dfn sc []) = [(name sc, v)]"
proof (cases "submit_form p (emailToUse sc t)")
  case (Inl m)
  then show ?thesis by (simp add: scenario_try_redirect_def catch_scenario_def)
next
  case (Inr u)
  then show ?thesis
    using one_write_record_verdict[of "name sc" p]
    by (simp add: scenario_try_redirect_def Let_def)
qed

lemma one_write_message:
  "\<exists>v. catch_scenario (name sc) (scenario_try_message p t dfn sc []) = [(name sc, v)]"
proof (cases "submit_form p (emailToUse sc t)")
  case (Inl m)
  then show ?thesis by (simp add: scenario_try_message_def catch_scenario_def)
next
  case (Inr u)
  then show ?thesis
    using one_write_record_verdict[of "name sc" p]
    by (simp add: scenario_try_message_def Let_def)
qed

lemma body_appends:
  assumes "script_body attempt"
  shows "catch_scenario (name sc) (attempt p t dfn sc ws) =
           ws @ catch_scenario (name sc) (attempt p t dfn sc [])"
  using assms catch_redirect catch_message unfolding script_body_def by metis

lemma body_one_write:
  assumes "script_body attempt"
  shows "\<exists>v. scenario_entries attempt e d sc = [(name sc, v)]"
  using assms one_write_redirect one_write_message
  unfolding script_body_def scenario_entries_def by metis

lemma upto_first_none: "\<not> list_ex P xs \<Longrightarrow> upto_first P xs = xs"
  by (induction xs) auto

lemma set_upto_first: "set (upto_first P xs) \<subseteq> set xs"
  by (induction xs) auto

lemma distinct_upto_first: "distinct (map f xs) \<Longrightarrow> distinct (map f (upto_first P xs))"
proof (induction xs)
  case Nil
  show ?case by simp
next
  case (Cons x xs)
  have "f ` set (upto_first P xs) \<subseteq> f ` set xs"
    using set_upto_first [of P xs] by blast
  with Cons show ?case by auto
qed

lemma scenario_loop_eq:
  assumes "script_body attempt"
  shows "snd (scenario_loop attempt e d scs ws) =
           ws @ concat (map (scenario_entries attempt e d) (upto_first (pause_rejects e d) scs))"
proof (induction scs arbitrary: ws)
  case Nil
  show ?case by simp
next
  case (Cons sc scs)
  show ?case
    using body_appends [OF assms, of sc _ _ _ ws]
    by (simp add: Cons.IH scenario_entries_def pause_rejects_def returned_def Let_def
        split: sum.splits)
qed

lemma scenario_loop_returns:
  "(fst (scenario_loop attempt e d scs ws) = Inr ()) = (\<not> list_ex (pause_rejects e d) scs)"
  by (induction scs arbitrary: ws)
     (auto simp: pause_rejects_def returned_def Let_def split: sum.splits)

lemma scenario_loop_rejects:
  "fst (scenario_loop attempt e d scs ws) = Inl m \<Longrightarrow>
   \<exists>sc\<in>set scs. page_waitForTimeout (page_in e d (name sc)) = Inl m"
  by (induction scs arbitrary: ws) (auto simp: Let_def split: sum.splits)

lemma keys_entries:
  assumes "script_body attempt"
  shows "map fst (concat (map (scenario_entries attempt e d) scs)) = map name scs"
proof (induction scs)
  case Nil
  show ?case by simp
next
  case (Cons sc scs)
  from body_one_write [OF assms] obtain v where "scenario_entries attempt e d sc = [(name sc, v)]"
    by blast
  with Cons show ?case by simp
qed

lemma keys_scenario_loop:
  assumes "script_body attempt"
  shows "map fst (snd (scenario_loop attempt e d scs [])) =
           map name (upto_first (pause_rejects e d) scs)"
  by (simp add: scenario_loop_eq [OF assms] keys_entries [OF assms])

lemma filter_entries:
  assumes "script_body attempt" and "distinct (map name scs)" and "sc \<in> set scs"
  shows "filter (\<lambda>w. fst w = name sc) (concat (map (scenario_entries attempt e d) scs)) =
           scenario_entries attempt e d sc"
  using assms(2,3)
proof (induction scs)
  case Nil
  then show ?case by simp
next
  case (Cons a scs)
  from body_one_write [OF assms(1)] obtain v where a: "scenario_entries attempt e d a = [(name a, v)]"
    by blast
  show ?case
  proof (cases "a = sc")
    case True
    have "\<And>x. x \<in> set scs \<Longrightarrow> filter (\<lambda>w. fst w = name sc) (scenario_entries attempt e d x) = []"
    proof -
      fix x assume x: "x \<in> set scs"
      from body_one_write [OF assms(1)] obtain v' where "scenario_entries attempt e d x = [(name x, v')]"
        by blast
      moreover from Cons.prems(1) True x have "name x \<noteq> name sc"
        by (metis distinct.simps(2) image_eqI list.simps(9) set_map)
      ultimately show "filter (\<lambda>w. fst w = name sc) (scenario_entries attempt e d x) = []" by simp
    qed
    then have "filter (\<lambda>w. fst w = name sc) (concat (map (scenario_entries attempt e d) scs)) = []"
      by (induction scs) auto
    with a True show ?thesis by simp
  next
    case False
    with Cons.prems have in_rest: "sc \<in> set scs" and "name a \<noteq> name sc" by auto
    with a Cons.IH Cons.prems show ?thesis by simp
  qed
qed

lemma filter_scenario_loop:
  assumes "script_body attempt" and "distinct (map name scs)"
      and "sc \<in> set (upto_first (pause_rejects e d) scs)"
  shows "filter (\<lambda>w. fst w = name sc) (snd (scenario_loop attempt e d scs [])) =
           scenario_entries attempt e d sc"
  using filter_entries [OF assms(1) distinct_upto_first [OF assms(2)] assms(3)]
  by (simp add: scenario_loop_eq [OF assms(1)])

lemma script_body: "script lookup attempt \<Longrightarrow> script_body attempt"
  by (auto simp: script_def script_body_def)

lemma device_writes_files:
  "fst (device_writes lookup attempt e date scs d files) =
   fst (device_writes lookup attempt e date' scs d files')"
  by (simp add: device_writes_def device_try_def Let_def split: sum.splits prod.splits)

lemma device_writes_eq:
  "fst (device_writes lookup attempt e date scs d files) =
     (case lookup e d of
        Inl m \<Rightarrow> [(''error'', JString m)]
      | Inr c \<Rightarrow>
          (case open_page e d of
             Inl m \<Rightarrow> [(''error'', JString m)]
           | Inr u \<Rightarrow>
               (case fst (scenario_loop attempt e d scs []) of
                  Inl m \<Rightarrow> snd (scenario_loop attempt e d scs []) @ [(''error'', JString m)]
                | Inr u \<Rightarrow>
                    (case close_page e d of
                       Inl m \<Rightarrow> snd (scenario_loop attempt e d scs []) @ [(''error'', JString m)]
                     | Inr u \<Rightarrow> snd (scenario_loop attempt e d scs [])))))"
  by (simp add: device_writes_def device_try_def Let_def split: sum.splits prod.splits)

lemma device_loop_entry:
  "map_of (fst (device_loop lookup attempt e date scs ds (res, files))) d =
     (if d \<in> set ds
      then Some (JObject (object_of (fst (device_writes lookup attempt e date scs d []))))
      else map_of res d)"
proof (induction ds arbitrary: res files)
  case Nil
  show ?case by simp
next
  case (Cons a ds)
  obtain ws files' where w: "device_writes lookup attempt e date scs a files = (ws, files')"
    by (cases "device_writes lookup attempt e date scs a files")
  have ws: "ws = fst (device_writes lookup attempt e date scs a [])"
    using device_writes_files [of lookup attempt e date scs a files date "[]"] w by simp
  show ?case
    using w ws by (simp add: Cons.IH map_of_assign)
qed

lemma device_loop_keys:
  "distinct ds \<Longrightarrow> set ds \<inter> fst ` set res = {} \<Longrightarrow>
   map fst (fst (device_loop lookup attempt e date scs ds (res, files))) = map fst res @ ds"
proof (induction ds arbitrary: res files)
  case Nil
  show ?case by simp
next
  case (Cons a ds)
  obtain ws files' where w: "device_writes lookup attempt e date scs a files = (ws, files')"
    by (cases "device_writes lookup attempt e date scs a files")
  let ?res = "assign res a (JObject (object_of ws))"
  from Cons.prems have fresh: "a \<notin> fst ` set res" by auto
  then have keys: "map fst ?res = map fst res @ [a]" by (simp add: keys_assign)
  then have "fst ` set ?res = insert a (fst ` set res)"
    by (metis (no_types, lifting) Un_insert_right append_Nil2 list.set(2) set_append set_map list.set(1))
  with Cons.prems have disj: "set ds \<inter> fst ` set ?res = {}" by auto
  from Cons.prems have "distinct ds" by simp
  from this disj have "map fst (fst (device_loop lookup attempt e date scs ds (?res, files'))) = map fst ?res @ ds"
    by (rule Cons.IH)
  with keys w show ?case by simp
qed

section \<open>Judging by messages: which message decides\<close>

lemma trim_id: "s \<noteq> [] \<Longrightarrow> \<not> is_space (hd s) \<Longrightarrow> \<not> is_space (last s) \<Longrightarrow> trim s = s"
proof -
  assume s: "s \<noteq> []" and h: "\<not> is_space (hd s)" and l: "\<not> is_space (last s)"
  from s h have "dropWhile is_space s = s" by (cases s) simp_all
  moreover from s l have "dropWhile is_space (rev s) = rev s"
    by (cases "rev s") (simp_all add: hd_rev [symmetric])
  ultimately show ?thesis by (simp add: trim_def)
qed

lemma engine_of_error_selector: \<open>engine_of (''text*="'' @ t @ ''"'') = ''text*''\<close>
proof -
  have sp: \<open>trim (''text*="'' @ t @ ''"'') = ''text*="'' @ t @ ''"''\<close>
    by (rule trim_id) (simp_all add: is_space_def)
  have sp': "trim ''text*'' = ''text*''"
    by (rule trim_id) (simp_all add: is_space_def)
  show ?thesis
    unfolding engine_of_def sp Let_def
    by (simp add: sp' engine_letter_def)
qed

lemma engine_of_success_selector: \<open>engine_of (''text="'' @ t @ ''"'') = ''text''\<close>
proof -
  have sp: \<open>trim (''text="'' @ t @ ''"'') = ''text="'' @ t @ ''"''\<close>
    by (rule trim_id) (simp_all add: is_space_def)
  have sp': "trim ''text'' = ''text''"
    by (rule trim_id) (simp_all add: is_space_def)
  show ?thesis
    unfolding engine_of_def sp Let_def
    by (simp add: sp' engine_letter_def)
qed

text \<open>
  The other selectors of the form scripts name engines the library has: the text engine
  and the CSS engine.
\<close>

lemma script_selectors_are_known:
  \<open>engine_of ''text="I want this"'' = ''text'' \<and> engine_of ''text="Select from the list"'' = ''text''
   \<and> engine_of ''text="Option 1"'' = ''text'' \<and> engine_of ''text="Test"'' = ''text''
   \<and> engine_of ''select'' = ''css''
   \<and> engine_of ''input[name="name"], input[placeholder*="Name"], input[placeholder*="name"]'' = ''css''
   \<and> engine_of ''input[name="email"], input[type="email"], input[placeholder*="Email"], input[placeholder*="email"], input[placeholder*="ETH"], input[placeholder*="ENS"]'' = ''css''
   \<and> engine_of ''text*="Wrong format"'' = ''text*''
   \<and> ''text'' \<in> set engines \<and> ''css'' \<in> set engines \<and> ''text*'' \<notin> set engines\<close>
  by code_simp

lemma error_selector_rejects:
  \<open>page_locator_isVisible p (''text*="'' @ t @ ''"'') = Inl (unknown_engine (''text*="'' @ t @ ''"''))\<close>
  unfolding page_locator_isVisible_def engine_of_error_selector
  by (simp add: engines_def)

lemma success_selector_asks_the_browser:
  \<open>page_locator_isVisible p (''text="'' @ t @ ''"'') = locator_isVisible p (''text="'' @ t @ ''"'')\<close>
  unfolding page_locator_isVisible_def engine_of_success_selector
  by (simp add: engines_def)

lemmas error_selector_rejects_cons = error_selector_rejects [simplified]

lemmas success_selector_asks_the_browser_cons = success_selector_asks_the_browser [simplified]

lemma find_error_None: "find_error p ts = None"
  by (induction ts) (simp_all add: error_selector_rejects_cons or_else_def)

lemma find_success_invisible:
  assumes "\<forall>s. locator_isVisible p s \<noteq> Inr True"
  shows "find_success p ts = None"
proof (induction ts)
  case Nil
  show ?case by simp
next
  case (Cons t ts)
  from assms have "locator_isVisible p (CHR ''t'' # CHR ''e'' # CHR ''x'' # CHR ''t'' # CHR ''='' # CHR 0x22 # t @ [CHR 0x22]) \<noteq> Inr True"
    by blast
  with Cons show ?case
    by (auto simp: success_selector_asks_the_browser_cons or_else_def split: sum.splits)
qed

text \<open>
  The classification itself reads the error first: whenever \<^verbatim>\<open>foundErrorMessage\<close> holds
  a message, the verdict is the error's, whatever \<^verbatim>\<open>foundSuccessMessage\<close> holds. So does
  the summary of the single-run script.
\<close>

lemma verdict_message_error:
  assumes "truthy fe"
  shows "verdict_message dfn sc fs fe u =
     (if expectError sc
      then (Some (''./screenshots/'' @ dfn @ ''-'' @ name sc @ ''.png''),
            JObject [(''status'', JString ''pass''),
                     (''message'', JString (''Error detected: '' @ template fe)),
                     (''screenshot'', JString (''./screenshots/'' @ dfn @ ''-'' @ name sc @ ''.png'')),
                     (''errorMessage'', toJS fe)])
      else (Some (''./screenshots/'' @ dfn @ ''-'' @ name sc @ ''-unexpected-error.png''),
            JObject [(''status'', JString ''fail''),
                     (''message'', JString (''Unexpected error: '' @ template fe)),
                     (''screenshot'', JString (''./screenshots/'' @ dfn @ ''-'' @ name sc @ ''-unexpected-error.png'')),
                     (''errorMessage'', toJS fe)]))"
  using assms by (simp add: verdict_message_def Let_def)

lemma final_summary_error_first: "final_summary foundSuccess True = TEST_FAILED"
  by (simp add: final_summary_def)

text \<open>
  But \<^verbatim>\<open>foundErrorMessage\<close> never holds a message. The error texts are looked up with
  \<^verbatim>\<open>page.locator(`text*="${errorText}"`)\<close>; the library reads \<^verbatim>\<open>text*\<close> as the name of an
  engine, knows none of that name, and rejects \<^verbatim>\<open>isVisible()\<close>; \<^verbatim>\<open>.catch(() => false)\<close>
  turns the rejection into "not visible". So when a success text is visible, the
  verdict is the success text's, whatever else the page shows.
\<close>

lemma success_text_decides:
  assumes "truthy (find_success p successTexts)"
  shows "verdict_message dfn sc (find_success p successTexts) (find_error p errorTexts) u =
     (if expectError sc
      then (None,
            JObject [(''status'', JString ''fail''),
                     (''message'',
                      JString (''Form succeeded when it should have shown an error. Success message: ''
                               @ template (find_success p successTexts)))])
      else (None,
            JObject [(''status'', JString ''pass''),
                     (''message'',
                      JString (''Form submitted successfully. Success message: ''
                               @ template (find_success p successTexts))),
                     (''successMessage'', toJS (find_success p successTexts)),
                     (''currentUrl'', JString u)]))"
  using assms by (simp add: verdict_message_def Let_def find_error_None truthy_def)

text \<open>
  C2. The claim: when an error pattern and a success pattern are both visible after a
  submission, the submission is judged by the error, in the scenarios that expect an
  error and in those that expect success. In the script that reads messages the lookup
  of the error texts never succeeds, so on a page that shows \<^verbatim>\<open>Congratulations\<close> and
  \<^verbatim>\<open>Wrong format\<close> together the success text decides: the scenario
  \<^verbatim>\<open>bad-format-email\<close>, which expects an error, is stored as \<^verbatim>\<open>fail\<close> for having
  succeeded, and the scenario \<^verbatim>\<open>valid-unique-email\<close>, which expects success, is stored as
  \<^verbatim>\<open>pass\<close>.
\<close>

theorem success_text_overrides_error_text:
  \<open>locator_isVisible page_both_messages ''text="Wrong format"'' = Inr True
   \<and> locator_isVisible page_both_messages ''text="Congratulations"'' = Inr True
   \<and> find_error page_both_messages errorTexts = None
   \<and> find_success page_both_messages successTexts = Some ''Congratulations''
   \<and> catch_scenario ''bad-format-email''
        (scenario_try_message page_both_messages 1762119000000 ''pixel-5'' (testScenarios_message ! 1) []) =
       [(''bad-format-email'',
         JObject [(''status'', JString ''fail''),
                  (''message'',
                   JString ''Form succeeded when it should have shown an error. Success message: Congratulations'')])]
   \<and> catch_scenario ''valid-unique-email''
        (scenario_try_message page_both_messages 1762119000000 ''pixel-5'' (testScenarios_message ! 4) []) =
       [(''valid-unique-email'',
         JObject [(''status'', JString ''pass''),
                  (''message'', JString ''Form submitted successfully. Success message: Congratulations''),
                  (''successMessage'', JString ''Congratulations''),
                  (''currentUrl'', JString ''https://mint.poap.studio/version-72bms/index-20/customdemoflow05'')])]\<close>
proof -
  have e: "find_error page_both_messages errorTexts = None"
    by (rule find_error_None)
  have s: "find_success page_both_messages successTexts = Some ''Congratulations''"
    by code_simp
  have f: "submit_form page_both_messages x = Inr ()" for x
    by (simp add: submit_form_def page_both_messages_def page_stays_def)
  have u: "page_url page_both_messages = originalUrl"
    by (simp add: page_both_messages_def page_stays_def)
  have x1: "testScenarios_message ! 1 =
      \<lparr>name = ''bad-format-email'', description = ''Bad format email'', email = Some ''notanemail'',
       expectError = True, expectedErrorText = Some ''Wrong format''\<rparr>"
    and x4: "testScenarios_message ! 4 =
      \<lparr>name = ''valid-unique-email'', description = ''Valid unique email'', email = None,
       expectError = False, expectedErrorText = None\<rparr>"
    by (simp_all add: testScenarios_message_def)
  have v1: \<open>catch_scenario ''bad-format-email''
        (scenario_try_message page_both_messages 1762119000000 ''pixel-5'' (testScenarios_message ! 1) []) =
       [(''bad-format-email'',
         JObject [(''status'', JString ''fail''),
                  (''message'',
                   JString ''Form succeeded when it should have shown an error. Success message: Congratulations'')])]\<close>
    unfolding scenario_try_message_def x1 f e s u
    by (simp add: verdict_message_def Let_def truthy_def template_def record_verdict_def
        catch_scenario_def)
  have v4: \<open>catch_scenario ''valid-unique-email''
        (scenario_try_message page_both_messages 1762119000000 ''pixel-5'' (testScenarios_message ! 4) []) =
       [(''valid-unique-email'',
         JObject [(''status'', JString ''pass''),
                  (''message'', JString ''Form submitted successfully. Success message: Congratulations''),
                  (''successMessage'', JString ''Congratulations''),
                  (''currentUrl'', JString ''https://mint.poap.studio/version-72bms/index-20/customdemoflow05'')])]\<close>
    unfolding scenario_try_message_def x4 f e s u
    by (simp add: verdict_message_def Let_def truthy_def template_def toJS_def record_verdict_def
        catch_scenario_def originalUrl_def)
  have w: \<open>locator_isVisible page_both_messages ''text="Wrong format"'' = Inr True\<close>
    \<open>locator_isVisible page_both_messages ''text="Congratulations"'' = Inr True\<close>
    by (simp_all add: page_both_messages_def page_stays_def)
  from w e s v1 v4 show ?thesis by simp
qed

section \<open>No redirect and no message\<close>

text \<open>
  In the script that reads messages, a scenario that expects an error and meets neither
  a success text nor a changed address is stored as \<^verbatim>\<open>pass\<close>, with the screenshot the
  branch takes.
\<close>

lemma message_script_counts_silence_as_error:
  assumes "expectError sc"
      and "submit_form p (emailToUse sc timestamp) = Inr ()"
      and "\<not> truthy (find_success p successTexts)" and "page_url p = originalUrl"
      and "page_screenshot p (''./screenshots/'' @ dfn @ ''-'' @ name sc @ ''.png'') = Inr ()"
  shows "catch_scenario (name sc) (scenario_try_message p timestamp dfn sc ws) =
           ws @ [(name sc,
                  JObject [(''status'', JString ''pass''),
                           (''message'', JString ''Form did not redirect (error assumed)''),
                           (''screenshot'', JString (''./screenshots/'' @ dfn @ ''-'' @ name sc @ ''.png''))])]"
  using assms unfolding scenario_try_message_def
  by (simp add: verdict_message_def find_error_None truthy_def record_verdict_def catch_scenario_def
      Let_def)

text \<open>
  The script that judges by the redirect has the branch too: with \<^verbatim>\<open>redirected\<close> false and
  the address unchanged, a scenario that expects an error is \<^verbatim>\<open>pass\<close>.
\<close>

lemma verdict_redirect_silence:
  assumes "expectError sc"
  shows "verdict_redirect dfn sc False originalUrl =
           (Some (''./screenshots/'' @ dfn @ ''-'' @ name sc @ ''.png''),
            JObject [(''status'', JString ''pass''),
                     (''message'', JString ''Error detected as expected (form did not redirect)''),
                     (''screenshot'', JString (''./screenshots/'' @ dfn @ ''-'' @ name sc @ ''.png''))])"
  using assms by (simp add: verdict_redirect_def Let_def)

text \<open>
  But \<^verbatim>\<open>redirected\<close> is not false on a page that stays. The script waits with
  \<^verbatim>\<open>page.waitForURL(url => url !== originalUrl, ...)\<close>; the library calls the predicate
  on a \<^verbatim>\<open>URL\<close> object, which is never strictly equal to the string \<^verbatim>\<open>originalUrl\<close>, so
  the predicate holds of the address the page already has and the call returns as soon
  as the page is loaded. Whenever it returns, a scenario that expects an error is
  stored as \<^verbatim>\<open>fail\<close>.
\<close>

lemma url_predicate_holds: "strictly_unequal (A_URL href) s"
  by (simp add: strictly_unequal_def)

lemma page_waitForURL_is_the_load_state:
  "page_waitForURL p (\<lambda>url. strictly_unequal url originalUrl) = frame_waitForLoadState p"
  by (simp add: page_waitForURL_def url_predicate_holds)

lemma loaded_page_counts_as_redirected:
  assumes "expectError sc"
      and "submit_form p (emailToUse sc timestamp) = Inr ()"
      and "frame_waitForLoadState p = Inr ()"
  shows "catch_scenario (name sc) (scenario_try_redirect p timestamp dfn sc ws) =
           ws @ [(name sc,
                  JObject [(''status'', JString ''fail''),
                           (''message'', JString ''Form redirected when it should have shown an error'')])]"
  using assms unfolding scenario_try_redirect_def page_waitForURL_is_the_load_state
  by (simp add: verdict_redirect_def record_verdict_def catch_scenario_def Let_def)

text \<open>
  C7. The claim: for a scenario that expects an error, when the wait ends with no
  redirect and no success or error text, the scenario is stored as \<^verbatim>\<open>pass\<close>. Take a page
  that stays where it is after the form is sent: it is loaded, no navigation happens,
  its address is the original one at every moment, and none of the texts is visible.
  The script that reads messages stores \<^verbatim>\<open>pass\<close> for the scenario
  \<^verbatim>\<open>already-used-email\<close>. The script that judges by the redirect stores \<^verbatim>\<open>fail\<close>, "Form
  redirected when it should have shown an error": its wait for a new address returns
  at once.
\<close>

theorem page_that_stays_is_judged_redirected:
  "frame_url page_stays = originalUrl \<and> page_url page_stays = originalUrl
   \<and> returned (frame_waitForLoadState page_stays) \<and> \<not> returned (frame_waitForNavigation page_stays)
   \<and> find_success page_stays successTexts = None \<and> find_error page_stays errorTexts = None
   \<and> expectError (testScenarios_redirect ! 0) \<and> expectError (testScenarios_message ! 0)
   \<and> page_waitForURL page_stays (\<lambda>url. strictly_unequal url originalUrl) = Inr ()
   \<and> catch_scenario ''already-used-email''
        (scenario_try_redirect page_stays 1762119000000 ''pixel-5'' (testScenarios_redirect ! 0) []) =
       [(''already-used-email'',
         JObject [(''status'', JString ''fail''),
                  (''message'', JString ''Form redirected when it should have shown an error'')])]
   \<and> catch_scenario ''already-used-email''
        (scenario_try_message page_stays 1762119000000 ''pixel-5'' (testScenarios_message ! 0) []) =
       [(''already-used-email'',
         JObject [(''status'', JString ''pass''),
                  (''message'', JString ''Form did not redirect (error assumed)''),
                  (''screenshot'', JString ''./screenshots/pixel-5-already-used-email.png'')])]"
proof -
  have a: "frame_url page_stays = originalUrl" "page_url page_stays = originalUrl"
    "returned (frame_waitForLoadState page_stays)" "\<not> returned (frame_waitForNavigation page_stays)"
    by (simp_all add: page_stays_def returned_def)
  have l: "frame_waitForLoadState page_stays = Inr ()"
    by (simp add: page_stays_def)
  have s: "find_success page_stays successTexts = None"
    by (rule find_success_invisible) (simp add: page_stays_def)
  have e: "find_error page_stays errorTexts = None"
    by (rule find_error_None)
  have xr: "expectError (testScenarios_redirect ! 0)" "name (testScenarios_redirect ! 0) = ''already-used-email''"
    by (simp_all add: testScenarios_redirect_def)
  have xm: "expectError (testScenarios_message ! 0)" "name (testScenarios_message ! 0) = ''already-used-email''"
    by (simp_all add: testScenarios_message_def)
  have f: "submit_form page_stays x = Inr ()" for x
    by (simp add: submit_form_def page_stays_def)
  have w: "page_waitForURL page_stays (\<lambda>url. strictly_unequal url originalUrl) = Inr ()"
    by (simp add: page_waitForURL_is_the_load_state l)
  have c: "page_screenshot page_stays x = Inr ()" for x
    by (simp add: page_stays_def)
  have r: "catch_scenario ''already-used-email''
        (scenario_try_redirect page_stays 1762119000000 ''pixel-5'' (testScenarios_redirect ! 0) []) =
       [(''already-used-email'',
         JObject [(''status'', JString ''fail''),
                  (''message'', JString ''Form redirected when it should have shown an error'')])]"
    using loaded_page_counts_as_redirected [OF xr(1) f l, of 1762119000000 "''pixel-5''" "[]"]
    by (simp add: xr(2))
  have m: "catch_scenario ''already-used-email''
        (scenario_try_message page_stays 1762119000000 ''pixel-5'' (testScenarios_message ! 0) []) =
       [(''already-used-email'',
         JObject [(''status'', JString ''pass''),
                  (''message'', JString ''Form did not redirect (error assumed)''),
                  (''screenshot'', JString ''./screenshots/pixel-5-already-used-email.png'')])]"
    using message_script_counts_silence_as_error [OF xm(1) f _ a(2) c, of 1762119000000 "''pixel-5''" "[]"]
    by (simp add: xm(2) s truthy_def)
  from a s e xr(1) xm(1) w r m show ?thesis by simp
qed

section \<open>The sweep: exceptions, device failures, completeness\<close>

lemma entries_of_rejection:
  assumes "script_body attempt"
      and "fst (attempt (page_in e d (name sc)) (Date_now e d (name sc)) (deviceToFilename d) sc []) = Inl m"
  shows "scenario_entries attempt e d sc = [(name sc, error_outcome m)]"
proof -
  obtain r ws where a: "attempt (page_in e d (name sc)) (Date_now e d (name sc)) (deviceToFilename d) sc [] = (r, ws)"
    by (cases "attempt (page_in e d (name sc)) (Date_now e d (name sc)) (deviceToFilename d) sc []")
  with assms(2) have r: "r = Inl m" by simp
  from body_one_write [OF assms(1), of e d sc] obtain v where
    v: "scenario_entries attempt e d sc = [(name sc, v)]" by blast
  from a r have "scenario_entries attempt e d sc = ws @ [(name sc, error_outcome m)]"
    by (simp add: scenario_entries_def catch_scenario_def)
  with v show ?thesis by simp
qed

lemma upto_first_split:
  "\<not> list_ex P before \<Longrightarrow>
   upto_first P (before @ x # rest) = before @ (if P x then [x] else x # upto_first P rest)"
  by (induction before) auto

lemma map_of_single_filter:
  assumes "filter (\<lambda>w. fst w = k) ws = [(k, v)]"
  shows "map_of ws k = Some v"
  using assms
proof (induction ws)
  case Nil
  then show ?case by simp
next
  case (Cons w ws)
  then show ?case by (cases w) (auto split: if_splits)
qed

text \<open>
  C5. The claim: when the step sequence of a scenario throws, the scenario is stored
  with status \<^verbatim>\<open>error\<close> and the message, and execution proceeds to the next scenario of
  the device. Between the scenario's \<^verbatim>\<open>catch\<close> and the next scenario stands
  \<^verbatim>\<open>await page.waitForTimeout(2000)\<close>, inside the device's \<^verbatim>\<open>try\<close> and outside the
  scenario's. When the page is lost during the second scenario on Pixel 5, the scenario
  throws and is stored as \<^verbatim>\<open>error\<close>, the delay rejects as well, and the device's
  \<^verbatim>\<open>catch\<close> ends the sweep: the three scenarios that follow are never run.
\<close>

theorem lost_page_ends_the_sweep:
  "fst (scenario_try_message (page_in env_page_closes ''Pixel 5'' ''bad-format-email'')
          (Date_now env_page_closes ''Pixel 5'' ''bad-format-email'') (deviceToFilename ''Pixel 5'')
          (testScenarios_message ! 1) []) =
     Inl ''Target page, context or browser has been closed''
   \<and> map name testScenarios_message =
       [''already-used-email'', ''bad-format-email'', ''invalid-eth'', ''invalid-ens'', ''valid-unique-email'']
   \<and> scenario_loop scenario_try_message env_page_closes ''Pixel 5'' testScenarios_message [] =
       (Inl ''Target page, context or browser has been closed'',
        [(''already-used-email'',
          JObject [(''status'', JString ''pass''),
                   (''message'', JString ''Form did not redirect (error assumed)''),
                   (''screenshot'', JString ''./screenshots/pixel-5-already-used-email.png'')]),
         (''bad-format-email'',
          JObject [(''status'', JString ''error''),
                   (''message'', JString ''Target page, context or browser has been closed'')])])
   \<and> map_of (fst (run_message env_page_closes today [])) ''Pixel 5'' =
       Some (JObject
         [(''already-used-email'',
           JObject [(''status'', JString ''pass''),
                    (''message'', JString ''Form did not redirect (error assumed)''),
                    (''screenshot'', JString ''./screenshots/pixel-5-already-used-email.png'')]),
          (''bad-format-email'',
           JObject [(''status'', JString ''error''),
                    (''message'', JString ''Target page, context or browser has been closed'')]),
          (''error'', JString ''Target page, context or browser has been closed'')])"
proof -
  let ?first = "(''already-used-email'',
          JObject [(''status'', JString ''pass''),
                   (''message'', JString ''Form did not redirect (error assumed)''),
                   (''screenshot'', JString ''./screenshots/pixel-5-already-used-email.png'')])"
  have names: "map name testScenarios_message =
       [''already-used-email'', ''bad-format-email'', ''invalid-eth'', ''invalid-ens'', ''valid-unique-email'']"
    by (simp add: testScenarios_message_def)
  have p1: "page_in env_page_closes ''Pixel 5'' ''already-used-email'' = page_stays"
    and p2: "page_in env_page_closes ''Pixel 5'' ''bad-format-email'' = page_closed"
    by (simp_all add: env_page_closes_def env_stays_def)
  have dfn: "deviceToFilename ''Pixel 5'' = ''pixel-5''"
    by code_simp
  have x: "expectError (testScenarios_message ! 0)" "name (testScenarios_message ! 0) = ''already-used-email''"
    "name (testScenarios_message ! 1) = ''bad-format-email''"
    by (simp_all add: testScenarios_message_def)
  have fs: "\<not> truthy (find_success page_stays successTexts)"
    by (simp add: find_success_invisible page_stays_def truthy_def)
  have s1: "catch_scenario ''already-used-email''
        (scenario_try_message page_stays t ''pixel-5'' (testScenarios_message ! 0) []) = [?first]" for t
    using message_script_counts_silence_as_error [OF x(1) _ fs, of t "''pixel-5''" "[]"]
    by (simp add: x(2) submit_form_def page_stays_def)
  have s2: "scenario_try_message page_closed t dfn sc ws = (Inl closed_message, ws)" for t dfn sc ws
    by (simp add: scenario_try_message_def submit_form_def page_closed_def)
  have w1: "page_waitForTimeout page_stays = Inr ()" and w2: "page_waitForTimeout page_closed = Inl closed_message"
    by (simp_all add: page_stays_def page_closed_def)
  have split: "testScenarios_message =
      testScenarios_message ! 0 # testScenarios_message ! 1 # drop 2 testScenarios_message"
    by (simp add: testScenarios_message_def)
  have loop: "scenario_loop scenario_try_message env_page_closes ''Pixel 5'' testScenarios_message [] =
       (Inl closed_message, [?first, (''bad-format-email'', error_outcome closed_message)])"
    apply (subst split)
    apply (simp only: scenario_loop.simps x p1 p2 dfn Let_def s1 w1 sum.case)
    apply (simp add: s2 w2 catch_scenario_def)
    done
  have d: "''Pixel 5'' \<in> set devicesToTest_message"
    by (simp add: devicesToTest_message_def)
  have ok: "lookup_message env_page_closes ''Pixel 5'' = Inr (390, 844)"
    "open_page env_page_closes ''Pixel 5'' = Inr ()"
    by (simp_all add: lookup_message_def open_page_def env_page_closes_def env_stays_def)
  have w: "fst (device_writes lookup_message scenario_try_message env_page_closes (getFormattedDate today)
                  testScenarios_message ''Pixel 5'' []) =
       [?first, (''bad-format-email'', error_outcome closed_message), (''error'', JString closed_message)]"
    by (simp add: device_writes_eq ok loop)
  have entry: "map_of (fst (run_message env_page_closes today [])) ''Pixel 5'' =
       Some (JObject
         [?first, (''bad-format-email'', error_outcome closed_message), (''error'', JString closed_message)])"
    unfolding run_message_def device_loop_entry w using d by (simp add: object_of_def)
  have thrown: "fst (scenario_try_message (page_in env_page_closes ''Pixel 5'' ''bad-format-email'')
          (Date_now env_page_closes ''Pixel 5'' ''bad-format-email'') (deviceToFilename ''Pixel 5'')
          (testScenarios_message ! 1) []) = Inl closed_message"
    by (simp add: p2 s2)
  from thrown names loop entry show ?thesis
    by (simp add: closed_message_def error_outcome_def)
qed

text \<open>
  C5, as the code has it. When the sweep of a device reaches a scenario and the
  scenario's \<^verbatim>\<open>try\<close> body throws, the scenario's entry is
  \<^verbatim>\<open>{ status: 'error', message: error.message }\<close>, written once: nothing is retried.
  Execution proceeds to the next scenario of the device when the delay that follows
  the scenario returns, and the scenarios after it are then handled as if nothing had
  been thrown; when that delay rejects, the sweep of the device ends with the scenario.
  A scenario's own exception never leaves the loop: the loop throws only what a delay
  throws. When every delay returns, every scenario of the table is written exactly
  once and in table order. This holds for the \<^verbatim>\<open>try\<close> bodies of both scripts.
\<close>

theorem scenario_exception_is_recorded_and_next_runs_after_the_delay:
  assumes "script_body attempt"
      and "distinct (map name scs)" and "scs = before @ sc # rest"
      and "\<not> list_ex (pause_rejects e d) before"
      and "fst (attempt (page_in e d (name sc)) (Date_now e d (name sc)) (deviceToFilename d) sc []) = Inl m"
  shows "filter (\<lambda>w. fst w = name sc) (snd (scenario_loop attempt e d scs [])) =
           [(name sc, JObject [(''status'', JString ''error''), (''message'', JString m)])]
       \<and> map_of (snd (scenario_loop attempt e d scs [])) (name sc) =
           Some (JObject [(''status'', JString ''error''), (''message'', JString m)])
       \<and> (\<not> pause_rejects e d sc \<longrightarrow>
            map fst (snd (scenario_loop attempt e d scs [])) =
              map name before @ name sc # map name (upto_first (pause_rejects e d) rest)
            \<and> (\<forall>other\<in>set (upto_first (pause_rejects e d) rest).
                 filter (\<lambda>w. fst w = name other) (snd (scenario_loop attempt e d scs [])) =
                   scenario_entries attempt e d other))
       \<and> (pause_rejects e d sc \<longrightarrow>
            map fst (snd (scenario_loop attempt e d scs [])) = map name before @ [name sc]
            \<and> fst (scenario_loop attempt e d scs []) = page_waitForTimeout (page_in e d (name sc)))
       \<and> (\<forall>m'. fst (scenario_loop attempt e d scs []) = Inl m' \<longrightarrow>
            (\<exists>x\<in>set scs. page_waitForTimeout (page_in e d (name x)) = Inl m'))
       \<and> (\<not> list_ex (pause_rejects e d) scs \<longrightarrow>
            fst (scenario_loop attempt e d scs []) = Inr ()
            \<and> map fst (snd (scenario_loop attempt e d scs [])) = map name scs)"
proof -
  let ?P = "pause_rejects e d"
  let ?loop = "scenario_loop attempt e d scs []"
  have run: "upto_first ?P scs = before @ (if ?P sc then [sc] else sc # upto_first ?P rest)"
    unfolding assms(3) by (rule upto_first_split [OF assms(4)])
  have keys: "map fst (snd ?loop) = map name (upto_first ?P scs)"
    by (rule keys_scenario_loop [OF assms(1)])
  have reached: "sc \<in> set (upto_first ?P scs)"
    by (simp add: run)
  have own: "filter (\<lambda>w. fst w = name sc) (snd ?loop) = [(name sc, error_outcome m)]"
    using filter_scenario_loop [OF assms(1,2) reached] entries_of_rejection [OF assms(1,5)] by simp
  have look: "map_of (snd ?loop) (name sc) = Some (error_outcome m)"
    by (rule map_of_single_filter [OF own])
  have goes_on: "map fst (snd ?loop) = map name before @ name sc # map name (upto_first ?P rest)
            \<and> (\<forall>other\<in>set (upto_first ?P rest).
                 filter (\<lambda>w. fst w = name other) (snd ?loop) = scenario_entries attempt e d other)"
    if "\<not> ?P sc"
  proof
    from that show "map fst (snd ?loop) = map name before @ name sc # map name (upto_first ?P rest)"
      by (simp add: keys run)
    from that have "set (upto_first ?P rest) \<subseteq> set (upto_first ?P scs)"
      by (auto simp: run)
    then show "\<forall>other\<in>set (upto_first ?P rest).
                 filter (\<lambda>w. fst w = name other) (snd ?loop) = scenario_entries attempt e d other"
      using filter_scenario_loop [OF assms(1,2)] by blast
  qed
  have stops: "map fst (snd ?loop) = map name before @ [name sc]
            \<and> fst ?loop = page_waitForTimeout (page_in e d (name sc))"
    if "?P sc"
  proof
    from that show "map fst (snd ?loop) = map name before @ [name sc]"
      by (simp add: keys run)
    have "fst (scenario_loop attempt e d (before @ sc # rest) ws) =
            page_waitForTimeout (page_in e d (name sc))" for ws
      using assms(4) that
      by (induction before arbitrary: ws)
         (auto simp: pause_rejects_def returned_def Let_def split: sum.splits)
    then show "fst ?loop = page_waitForTimeout (page_in e d (name sc))"
      by (simp add: assms(3))
  qed
  have only_delays: "\<forall>m'. fst ?loop = Inl m' \<longrightarrow>
            (\<exists>x\<in>set scs. page_waitForTimeout (page_in e d (name x)) = Inl m')"
    using scenario_loop_rejects by blast
  have all: "fst ?loop = Inr () \<and> map fst (snd ?loop) = map name scs"
    if "\<not> list_ex ?P scs"
    using that by (simp add: scenario_loop_returns keys upto_first_none)
  from own look goes_on stops only_delays all show ?thesis
    by (simp add: error_outcome_def)
qed

theorem scenario_exception_is_recorded_and_next_runs_after_the_delay_witness:
  "distinct (map name testScenarios_redirect)
   \<and> testScenarios_redirect =
       take 2 testScenarios_redirect @ testScenarios_redirect ! 2 # drop 3 testScenarios_redirect
   \<and> name (testScenarios_redirect ! 2) = ''invalid-eth''
   \<and> \<not> list_ex (pause_rejects env_goto_fails ''Pixel 5'') testScenarios_redirect
   \<and> fst (scenario_try_redirect (page_in env_goto_fails ''Pixel 5'' ''invalid-eth'')
            (Date_now env_goto_fails ''Pixel 5'' ''invalid-eth'') (deviceToFilename ''Pixel 5'')
            (testScenarios_redirect ! 2) []) = Inl ''page.goto: Timeout 60000ms exceeded.''
   \<and> fst (scenario_loop scenario_try_redirect env_goto_fails ''Pixel 5'' testScenarios_redirect []) = Inr ()
   \<and> map fst (snd (scenario_loop scenario_try_redirect env_goto_fails ''Pixel 5'' testScenarios_redirect [])) =
         [''already-used-email'', ''bad-format-email'', ''invalid-eth'', ''invalid-ens'',
          ''valid-unique-email'']
   \<and> map_of (snd (scenario_loop scenario_try_redirect env_goto_fails ''Pixel 5'' testScenarios_redirect []))
         ''invalid-eth'' =
         Some (JObject [(''status'', JString ''error''),
                        (''message'', JString ''page.goto: Timeout 60000ms exceeded.'')])"
proof -
  let ?sc = "testScenarios_redirect ! 2"
  have b: "script_body (scenario_try_redirect :: unit attempt)"
    by (simp add: script_body_def)
  have d: "distinct (map name testScenarios_redirect)"
    by (simp add: testScenarios_redirect_def)
  have i: "testScenarios_redirect = take 2 testScenarios_redirect @ ?sc # drop 3 testScenarios_redirect"
    by (simp add: testScenarios_redirect_def)
  have n: "name ?sc = ''invalid-eth''"
    by (simp add: testScenarios_redirect_def)
  have all: "\<not> list_ex (pause_rejects env_goto_fails ''Pixel 5'') testScenarios_redirect"
    by (simp add: testScenarios_redirect_def pause_rejects_def env_goto_fails_def env_stays_def
        page_stays_def returned_def)
  then have before: "\<not> list_ex (pause_rejects env_goto_fails ''Pixel 5'') (take 2 testScenarios_redirect)"
    by (simp add: testScenarios_redirect_def)
  have r: "fst (scenario_try_redirect (page_in env_goto_fails ''Pixel 5'' (name ?sc))
            (Date_now env_goto_fails ''Pixel 5'' (name ?sc)) (deviceToFilename ''Pixel 5'') ?sc []) =
           Inl ''page.goto: Timeout 60000ms exceeded.''"
    unfolding n
    by (simp add: env_goto_fails_def env_stays_def page_stays_def scenario_try_redirect_def
        submit_form_def)
  have names: "map name testScenarios_redirect =
      [''already-used-email'', ''bad-format-email'', ''invalid-eth'', ''invalid-ens'', ''valid-unique-email'']"
    by (simp add: testScenarios_redirect_def)
  note T = scenario_exception_is_recorded_and_next_runs_after_the_delay [OF b d i before r]
  from T all have ret: "fst (scenario_loop scenario_try_redirect env_goto_fails ''Pixel 5'' testScenarios_redirect []) = Inr ()"
    and keys: "map fst (snd (scenario_loop scenario_try_redirect env_goto_fails ''Pixel 5'' testScenarios_redirect [])) =
                 map name testScenarios_redirect"
    by blast+
  from T have look: "map_of (snd (scenario_loop scenario_try_redirect env_goto_fails ''Pixel 5'' testScenarios_redirect []))
         (name ?sc) =
         Some (JObject [(''status'', JString ''error''),
                        (''message'', JString ''page.goto: Timeout 60000ms exceeded.'')])"
    by blast
  from d i n all r ret keys look names show ?thesis by simp
qed

lemma device_try_failed_writes:
  assumes "fst (device_try lookup attempt e date scs d files) = Inl m"
  shows "\<exists>ws. fst (device_writes lookup attempt e date scs d files') = ws @ [(''error'', JString m)]"
  using assms
  by (auto simp: device_writes_def device_try_def Let_def split: sum.splits prod.splits)

lemma map_of_object_of_last:
  "map_of (object_of (ws @ [(k, v)])) k = Some v"
  by (simp add: object_of_def map_of_assign)

lemma device_loop_keys_empty:
  "distinct ds \<Longrightarrow> map fst (fst (device_loop lookup attempt e date scs ds ([], files))) = ds"
  using device_loop_keys [of ds "[]" lookup attempt e date scs files] by simp

text \<open>
  C6. When the \<^verbatim>\<open>try\<close> block of a device throws (the registry has no profile for the
  device, the context or the page cannot be opened or closed, the delay after a
  scenario rejects), the message is stored
  under \<^verbatim>\<open>error\<close> in that device's entry, the device loop goes on to the remaining
  devices, so that every device of the list has its entry, and the entry of every other
  device is exactly what that device's own sweep writes. For a missing profile, the
  entry holds nothing but the error: the engine's \<^verbatim>\<open>TypeError\<close> in the script without
  a check, the script's own message in the script that checks.
\<close>

theorem device_failure_is_recorded_and_loop_goes_on:
  assumes "distinct ds" and "d \<in> set ds"
      and "fst (device_try lookup attempt e date scs d files) = Inl m"
  shows "map fst (fst (device_loop lookup attempt e date scs ds ([], files))) = ds
       \<and> (\<exists>obj. map_of (fst (device_loop lookup attempt e date scs ds ([], files))) d = Some (JObject obj)
                \<and> map_of obj ''error'' = Some (JString m))
       \<and> (\<forall>other\<in>set ds. other \<noteq> d \<longrightarrow>
             map_of (fst (device_loop lookup attempt e date scs ds ([], files))) other =
               Some (JObject (object_of (fst (device_writes lookup attempt e date scs other [])))))
       \<and> (devices e d = None \<longrightarrow>
             map_of (fst (device_loop lookup_redirect attempt e date scs ds ([], files))) d =
               Some (JObject [(''error'', JString (viewport_TypeError e))])
           \<and> map_of (fst (device_loop lookup_message attempt e date scs ds ([], files))) d =
               Some (JObject [(''error'', JString (''Device '' @ [CHR 0x22] @ d @ [CHR 0x22]
                                                   @ '' not found in Playwright devices''))]))"
proof (intro conjI)
  show "map fst (fst (device_loop lookup attempt e date scs ds ([], files))) = ds"
    by (rule device_loop_keys_empty [OF assms(1)])
next
  from device_try_failed_writes [OF assms(3), of "[]"] obtain ws where
    ws: "fst (device_writes lookup attempt e date scs d []) = ws @ [(''error'', JString m)]"
    by blast
  have "map_of (fst (device_loop lookup attempt e date scs ds ([], files))) d =
          Some (JObject (object_of (ws @ [(''error'', JString m)])))"
    using assms(2) ws by (simp add: device_loop_entry)
  moreover have "map_of (object_of (ws @ [(''error'', JString m)])) ''error'' = Some (JString m)"
    by (rule map_of_object_of_last)
  ultimately show "\<exists>obj. map_of (fst (device_loop lookup attempt e date scs ds ([], files))) d =
                      Some (JObject obj) \<and> map_of obj ''error'' = Some (JString m)"
    by blast
next
  show "\<forall>other\<in>set ds. other \<noteq> d \<longrightarrow>
          map_of (fst (device_loop lookup attempt e date scs ds ([], files))) other =
            Some (JObject (object_of (fst (device_writes lookup attempt e date scs other []))))"
    by (simp add: device_loop_entry)
next
  show "devices e d = None \<longrightarrow>
          map_of (fst (device_loop lookup_redirect attempt e date scs ds ([], files))) d =
            Some (JObject [(''error'', JString (viewport_TypeError e))])
        \<and> map_of (fst (device_loop lookup_message attempt e date scs ds ([], files))) d =
            Some (JObject [(''error'', JString (''Device '' @ [CHR 0x22] @ d @ [CHR 0x22]
                                                @ '' not found in Playwright devices''))])"
    using assms(2)
    by (simp add: device_loop_entry device_writes_eq lookup_redirect_def lookup_message_def
        object_of_def)
qed

theorem device_failure_is_recorded_and_loop_goes_on_witness:
  \<open>distinct devicesToTest_message \<and> ''Galaxy S24'' \<in> set devicesToTest_message
   \<and> devices env_s24_missing ''Galaxy S24'' = None
   \<and> fst (device_try lookup_message scenario_try_message env_s24_missing (getFormattedDate today)
             testScenarios_message ''Galaxy S24'' []) =
        Inl ''Device "Galaxy S24" not found in Playwright devices''
   \<and> map fst (fst (run_message env_s24_missing today [])) = devicesToTest_message
   \<and> map_of (fst (run_message env_s24_missing today [])) ''Galaxy S24'' =
        Some (JObject [(''error'', JString ''Device "Galaxy S24" not found in Playwright devices'')])
   \<and> map_of (fst (run_message env_s24_missing today [])) ''Pixel 5'' =
        Some (JObject (object_of (fst (device_writes lookup_message scenario_try_message env_s24_missing
                (getFormattedDate today) testScenarios_message ''Pixel 5'' []))))\<close>
proof -
  have ds: "distinct devicesToTest_message" and d: "''Galaxy S24'' \<in> set devicesToTest_message"
    and o: "''Pixel 5'' \<in> set devicesToTest_message"
    by (simp_all add: devicesToTest_message_def)
  have none: "devices env_s24_missing ''Galaxy S24'' = None"
    by (simp add: env_s24_missing_def env_stays_def)
  have f: \<open>fst (device_try lookup_message scenario_try_message env_s24_missing (getFormattedDate today)
             testScenarios_message ''Galaxy S24'' []) =
        Inl ''Device "Galaxy S24" not found in Playwright devices''\<close>
    by (simp add: device_try_def lookup_message_def none)
  note T = device_failure_is_recorded_and_loop_goes_on [OF ds d f]
  from T have keys: "map fst (fst (run_message env_s24_missing today [])) = devicesToTest_message"
    by (simp add: run_message_def)
  from T none have entry: \<open>map_of (fst (run_message env_s24_missing today [])) ''Galaxy S24'' =
        Some (JObject [(''error'', JString ''Device "Galaxy S24" not found in Playwright devices'')])\<close>
    by (simp add: run_message_def)
  from T o have other: "map_of (fst (run_message env_s24_missing today [])) ''Pixel 5'' =
        Some (JObject (object_of (fst (device_writes lookup_message scenario_try_message env_s24_missing
                (getFormattedDate today) testScenarios_message ''Pixel 5'' []))))"
    by (simp add: run_message_def)
  from ds d none f keys entry other show ?thesis by simp
qed


lemma device_try_returns:
  "(fst (device_try lookup attempt e date scs d files) = Inr ()) =
     (returned (lookup e d) \<and> returned (open_page e d) \<and> \<not> list_ex (pause_rejects e d) scs
      \<and> returned (close_page e d))"
proof -
  obtain r ws where l: "scenario_loop attempt e d scs [] = (r, ws)"
    by (cases "scenario_loop attempt e d scs []")
  with scenario_loop_returns [of attempt e d scs "[]"]
  have "(r = Inr ()) = (\<not> list_ex (pause_rejects e d) scs)" by simp
  with l show ?thesis
    by (auto simp: device_try_def returned_def split: sum.splits)
qed

lemma device_writes_keys:
  assumes "script_body attempt"
  shows "map fst (fst (device_writes lookup attempt e date scs d files)) =
     map name (scenarios_run lookup e d scs)
     @ (if fst (device_try lookup attempt e date scs d files) = Inr () then [] else [''error''])"
proof -
  obtain r ws where l: "scenario_loop attempt e d scs [] = (r, ws)"
    by (cases "scenario_loop attempt e d scs []")
  from keys_scenario_loop [OF assms, of e d scs] l
  have k: "map fst ws = map name (upto_first (pause_rejects e d) scs)" by simp
  show ?thesis
    using l k
    by (auto simp: device_writes_def device_try_def scenarios_run_def returned_def
        split: sum.splits)
qed

text \<open>
  C3. The claim: after a full run every pair of a configured device and a scenario has
  exactly one entry, and none is overwritten. A device whose profile is missing from
  the registry gets no scenario entry at all: its sweep is abandoned before the first
  scenario and only the error is stored.
\<close>

theorem missing_device_has_no_scenario_entry:
  \<open>''Galaxy S24'' \<in> set devicesToTest_message
   \<and> ''bad-format-email'' \<in> set (map name testScenarios_message)
   \<and> map_of (fst (run_message env_s24_missing today [])) ''Galaxy S24'' =
        Some (JObject [(''error'', JString ''Device "Galaxy S24" not found in Playwright devices'')])\<close>
proof -
  have d: "''Galaxy S24'' \<in> set devicesToTest_message"
    by (simp add: devicesToTest_message_def)
  have n: "''bad-format-email'' \<in> set (map name testScenarios_message)"
    by (simp add: testScenarios_message_def)
  have l: \<open>lookup_message env_s24_missing ''Galaxy S24'' =
             Inl ''Device "Galaxy S24" not found in Playwright devices''\<close>
    by (simp add: lookup_message_def env_s24_missing_def env_stays_def)
  have w: \<open>fst (device_writes lookup_message scenario_try_message env_s24_missing
                  (getFormattedDate today) testScenarios_message ''Galaxy S24'' []) =
            [(''error'', JString ''Device "Galaxy S24" not found in Playwright devices'')]\<close>
    by (simp add: device_writes_eq l)
  have \<open>map_of (fst (run_message env_s24_missing today [])) ''Galaxy S24'' =
        Some (JObject [(''error'', JString ''Device "Galaxy S24" not found in Playwright devices'')])\<close>
    unfolding run_message_def device_loop_entry w using d by (simp add: object_of_def)
  with d n show ?thesis by simp
qed

text \<open>
  C3, as the code has it. In a run over distinct devices and distinctly named scenarios,
  none of them named \<^verbatim>\<open>error\<close>, no key of a device's object is written twice, so
  no entry is overwritten and the object holds the writes as they were made. The object
  has exactly one entry for each scenario that the device's sweep ran, in table order,
  and an \<^verbatim>\<open>error\<close> field exactly when the device's \<^verbatim>\<open>try\<close> block threw. The sweep runs
  no scenario when the profile lookup or the opening of the page fails, and otherwise
  the scenarios of the table up to the first one after which the delay rejects. So a
  device whose \<^verbatim>\<open>try\<close> block did not throw has exactly one entry for each scenario of
  the table and nothing else.
\<close>

theorem one_entry_per_scenario_that_the_sweep_ran:
  assumes "script lookup attempt"
      and "distinct ds" and "d \<in> set ds"
      and "distinct (map name scs)" and "''error'' \<notin> set (map name scs)"
  shows "\<exists>ws. fst (device_writes lookup attempt e date scs d files) = ws
            \<and> distinct (map fst ws)
            \<and> map_of (fst (device_loop lookup attempt e date scs ds ([], files))) d = Some (JObject ws)
            \<and> filter (\<lambda>k. k \<noteq> ''error'') (map fst ws) = map name (scenarios_run lookup e d scs)
            \<and> (''error'' \<in> set (map fst ws)) = (fst (device_try lookup attempt e date scs d files) \<noteq> Inr ())
            \<and> (fst (device_try lookup attempt e date scs d files) = Inr () \<longrightarrow>
                 map fst ws = map name scs)"
proof -
  let ?ws = "fst (device_writes lookup attempt e date scs d files)"
  let ?ran = "scenarios_run lookup e d scs"
  let ?ok = "fst (device_try lookup attempt e date scs d files) = Inr ()"
  have body: "script_body attempt"
    by (rule script_body [OF assms(1)])
  have keys: "map fst ?ws = map name ?ran @ (if ?ok then [] else [''error''])"
    by (rule device_writes_keys [OF body])
  have sub: "set ?ran \<subseteq> set scs"
    using set_upto_first [of "pause_rejects e d" scs] by (auto simp: scenarios_run_def)
  have dist_ran: "distinct (map name ?ran)"
    using distinct_upto_first [OF assms(4), of "pause_rejects e d"] by (simp add: scenarios_run_def)
  from sub assms(5) have no_error: "''error'' \<notin> set (map name ?ran)" by auto
  then have "\<forall>k\<in>set (map name ?ran). k \<noteq> ''error''"
    by blast
  then have filt: "filter (\<lambda>k. k \<noteq> ''error'') (map name ?ran) = map name ?ran"
    by (simp only: filter_id_conv)
  have dist: "distinct (map fst ?ws)"
    using dist_ran no_error by (simp add: keys)
  have same: "?ws = fst (device_writes lookup attempt e date scs d [])"
    by (rule device_writes_files)
  have entry: "map_of (fst (device_loop lookup attempt e date scs ds ([], files))) d = Some (JObject ?ws)"
    using assms(3) dist same by (simp add: device_loop_entry object_of_distinct)
  have shape: "filter (\<lambda>k. k \<noteq> ''error'') (map fst ?ws) = map name ?ran"
    by (simp add: keys filt)
  have err: "(''error'' \<in> set (map fst ?ws)) = (\<not> ?ok)"
    using no_error by (simp add: keys)
  have full: "map fst ?ws = map name scs" if ?ok
  proof -
    from that have "returned (lookup e d) \<and> returned (open_page e d) \<and> \<not> list_ex (pause_rejects e d) scs"
      by (simp add: device_try_returns)
    then have "?ran = scs" by (simp add: scenarios_run_def upto_first_none)
    with that show ?thesis by (simp add: keys)
  qed
  from dist entry shape err full show ?thesis by blast
qed

theorem one_entry_per_scenario_that_the_sweep_ran_witness:
  "script lookup_message (scenario_try_message :: (|expectedErrorText :: string option|) attempt)
   \<and> distinct devicesToTest_message \<and> ''Pixel 5'' \<in> set devicesToTest_message
   \<and> distinct (map name testScenarios_message) \<and> ''error'' \<notin> set (map name testScenarios_message)
   \<and> fst (device_try lookup_message scenario_try_message env_s24_missing (getFormattedDate today)
             testScenarios_message ''Pixel 5'' []) = Inr ()
   \<and> (\<exists>ws. map_of (fst (run_message env_s24_missing today [])) ''Pixel 5'' = Some (JObject ws)
           \<and> map fst ws =
               [''already-used-email'', ''bad-format-email'', ''invalid-eth'', ''invalid-ens'',
                ''valid-unique-email''])"
proof -
  have s: "script lookup_message (scenario_try_message :: (|expectedErrorText :: string option|) attempt)"
    by (simp add: script_def)
  have ds: "distinct devicesToTest_message" and d: "''Pixel 5'' \<in> set devicesToTest_message"
    by (simp_all add: devicesToTest_message_def)
  have ns: "distinct (map name testScenarios_message)" and ne: "''error'' \<notin> set (map name testScenarios_message)"
    and names: "map name testScenarios_message =
       [''already-used-email'', ''bad-format-email'', ''invalid-eth'', ''invalid-ens'', ''valid-unique-email'']"
    by (simp_all add: testScenarios_message_def)
  have r: "returned (lookup_message env_s24_missing ''Pixel 5'')" "returned (open_page env_s24_missing ''Pixel 5'')"
    "returned (close_page env_s24_missing ''Pixel 5'')"
    by (simp_all add: lookup_message_def open_page_def close_page_def env_s24_missing_def env_stays_def
        returned_def)
  have p: "\<not> list_ex (pause_rejects env_s24_missing ''Pixel 5'') testScenarios_message"
    by (simp add: testScenarios_message_def pause_rejects_def env_s24_missing_def env_stays_def
        page_stays_def returned_def)
  have ok: "fst (device_try lookup_message scenario_try_message env_s24_missing (getFormattedDate today)
             testScenarios_message ''Pixel 5'' []) = Inr ()"
    using r p by (simp add: device_try_returns)
  from one_entry_per_scenario_that_the_sweep_ran
         [OF s ds d ns ne, of env_s24_missing "getFormattedDate today" "[]"] ok
  obtain ws where
    e: "map_of (fst (run_message env_s24_missing today [])) ''Pixel 5'' = Some (JObject ws)"
    and w: "map fst ws = map name testScenarios_message"
    by (auto simp: run_message_def)
  from e w names have "\<exists>ws. map_of (fst (run_message env_s24_missing today [])) ''Pixel 5'' = Some (JObject ws)
           \<and> map fst ws =
               [''already-used-email'', ''bad-format-email'', ''invalid-eth'', ''invalid-ens'',
                ''valid-unique-email'']"
    by auto
  with s ds d ns ne ok show ?thesis by blast
qed

section \<open>Naming the videos\<close>

lemma char_of_48: "char_of (48::nat) = CHR ''0''"
  by code_simp

lemma show_nat_1: "n < 10 \<Longrightarrow> show_nat n = [char_of (48 + n)]"
  by (subst show_nat.simps) simp

lemma show_nat_2: "10 \<le> n \<Longrightarrow> n < 100 \<Longrightarrow> show_nat n = two_digits n"
  by (subst show_nat.simps) (simp add: show_nat_1 two_digits_def)

lemma show_nat_3:
  "100 \<le> n \<Longrightarrow> n < 1000 \<Longrightarrow> show_nat n = two_digits (n div 10) @ [char_of (48 + n mod 10)]"
  by (subst show_nat.simps) (simp add: show_nat_2)

lemma tens_digit: "(n::nat) mod 100 div 10 = n div 10 mod 10"
proof -
  have "n mod 100 = 10 * (n div 10 mod 10) + n mod 10"
    using mod_mult2_eq [of n 10 10] by simp
  then show ?thesis by simp
qed

lemma units_digit: "(n::nat) mod 100 mod 10 = n mod 10"
  by (simp add: mod_mod_cancel)

lemma hundreds: "(n::nat) div 10 div 10 = n div 100"
  by (simp add: div_mult2_eq [symmetric])

lemma show_nat_4:
  assumes "1000 \<le> n" and "n < 10000"
  shows "show_nat n = two_digits (n div 100) @ two_digits (n mod 100)"
proof -
  from assms have "show_nat n = show_nat (n div 10) @ [char_of (48 + n mod 10)]"
    by (subst show_nat.simps) simp
  moreover from assms have "show_nat (n div 10) = two_digits (n div 10 div 10) @ [char_of (48 + n div 10 mod 10)]"
    by (intro show_nat_3) simp_all
  moreover have "two_digits (n mod 100) = [char_of (48 + n div 10 mod 10), char_of (48 + n mod 10)]"
    by (simp only: two_digits_def tens_digit units_digit)
  ultimately show ?thesis
    by (simp only: hundreds append_Cons append_Nil append_assoc)
qed

lemma padStart_two_digits: "n < 100 \<Longrightarrow> padStart 2 CHR ''0'' (show_nat n) = two_digits n"
proof (cases "n < 10")
  case True
  then show ?thesis
    by (simp add: padStart_def show_nat_1 two_digits_def char_of_48)
next
  case False
  assume "n < 100"
  with False show ?thesis
    by (simp add: padStart_def show_nat_2 two_digits_def)
qed

lemma getFormattedDate_shape:
  assumes "getDate now \<le> 31" and "getMonth now \<le> 11"
      and "1000 \<le> getFullYear now" and "getFullYear now \<le> 9999"
  shows "getFormattedDate now = DD_MM_YYYY (getDate now) (getMonth now + 1) (getFullYear now)"
  using assms
  by (simp add: getFormattedDate_def DD_MM_YYYY_def Let_def padStart_two_digits show_nat_4)

lemma webm_nonempty: "endsWith f ''.webm'' \<Longrightarrow> f \<noteq> []"
  by (auto simp: endsWith_def)

lemma latestVideo_None:
  "latestVideo files = None \<longleftrightarrow> \<not> (\<exists>f\<in>set files. endsWith f ''.webm'')"
proof -
  let ?ws = "sort (filter (\<lambda>f. endsWith f ''.webm'') files)"
  have "set ?ws = {} \<longleftrightarrow> set (filter (\<lambda>f. endsWith f ''.webm'') files) = {}"
    by simp
  then have "?ws = [] \<longleftrightarrow> filter (\<lambda>f. endsWith f ''.webm'') files = []"
    by (simp only: set_empty)
  moreover have "latestVideo files = None \<longleftrightarrow> ?ws = []"
    by (cases ?ws) (simp_all add: latestVideo_def)
  ultimately show ?thesis
    by (simp add: filter_empty_conv)
qed

lemma sorted_le_last: "sorted xs \<Longrightarrow> x \<in> set xs \<Longrightarrow> x \<le> last xs"
  by (induction xs) auto

lemma latestVideo_Some:
  assumes "latestVideo files = Some v"
  shows "v \<in> set files \<and> endsWith v ''.webm'' \<and> (\<forall>f\<in>set files. endsWith f ''.webm'' \<longrightarrow> f \<le> v)"
proof -
  let ?ws = "sort (filter (\<lambda>f. endsWith f ''.webm'') files)"
  from assms have ne: "?ws \<noteq> []" and v: "v = last ?ws"
    by (auto simp: latestVideo_def split: list.splits)
  from last_in_set [OF ne] have "last ?ws \<in> set (filter (\<lambda>f. endsWith f ''.webm'') files)"
    by simp
  then have in_files: "v \<in> set files" and webm: "endsWith v ''.webm''"
    unfolding v by simp_all
  have "\<forall>f\<in>set files. endsWith f ''.webm'' \<longrightarrow> f \<le> v"
  proof (intro ballI impI)
    fix f assume "f \<in> set files" and "endsWith f ''.webm''"
    then have "f \<in> set ?ws" by simp
    with sorted_le_last [of ?ws f] v show "f \<le> v" by simp
  qed
  with in_files webm show ?thesis by blast
qed

lemma latestVideo_greatest:
  assumes "v \<in> set files" and "endsWith v ''.webm''"
      and "\<forall>f\<in>set files. endsWith f ''.webm'' \<longrightarrow> f \<le> v"
  shows "latestVideo files = Some v"
proof -
  from assms(1,2) have "latestVideo files \<noteq> None"
    by (auto simp: latestVideo_None)
  then obtain w where w: "latestVideo files = Some w" by blast
  from latestVideo_Some [OF w] assms have "w \<le> v" and "v \<le> w" by auto
  with w show ?thesis by simp
qed

lemma latestVideo_set:
  assumes "set files = set files'"
  shows "latestVideo files = latestVideo files'"
proof (cases "latestVideo files")
  case None
  with assms show ?thesis
    by (metis latestVideo_None)
next
  case (Some v)
  from latestVideo_Some [OF Some] assms
  have "latestVideo files' = Some v"
    by (intro latestVideo_greatest) auto
  with Some show ?thesis by simp
qed

lemma set_rename: "set (rename files old new) = insert new (set files - {old})"
  by (auto simp: rename_def)

lemma set_rename_video:
  "latestVideo files = Some v \<Longrightarrow> set (rename_video files new) = insert new (set files - {v})"
  using latestVideo_Some [of files v] webm_nonempty [of v]
  by (simp add: rename_video_def set_rename)


lemma device_try_files:
  "fst (device_try lookup attempt e date scs d files) = Inr () \<Longrightarrow>
   snd (snd (device_try lookup attempt e date scs d files)) =
     rename_video (save_video files (video e d)) (newVideoName (deviceToFilename d) date)"
  by (simp add: device_try_def Let_def split: sum.splits prod.splits)

text \<open>
  C8. The claim: after a device's context closes, the recorded video ends up named
  exactly \<^verbatim>\<open>{device}-{date}.webm\<close>. In the passport scripts the new name starts with
  \<^verbatim>\<open>passport-\<close>: the only video of a first device, iPhone SE on 2 November 2026, is
  renamed to \<^verbatim>\<open>passport-iphone-se-02-11-2026.webm\<close>, not \<^verbatim>\<open>iphone-se-02-11-2026.webm\<close>.
\<close>

theorem passport_video_name_has_a_prefix:
  "rename_video [''9b1c3f0e5a7d4c2e8f6a0b1d2c3e4f5a.webm'']
     (newVideoName_passport (deviceToFilename ''iPhone SE'') (getFormattedDate today)) =
     [''passport-iphone-se-02-11-2026.webm'']
   \<and> deviceToFilename ''iPhone SE'' @ ''-'' @ getFormattedDate today @ ''.webm'' =
       ''iphone-se-02-11-2026.webm''
   \<and> deviceToFilename ''iPhone SE'' @ ''-'' @ getFormattedDate today @ ''.webm'' \<notin>
       set (rename_video [''9b1c3f0e5a7d4c2e8f6a0b1d2c3e4f5a.webm'']
              (newVideoName_passport (deviceToFilename ''iPhone SE'') (getFormattedDate today)))"
  by code_simp

text \<open>
  C8, as the code has it. When the video directory lists at least one \<^verbatim>\<open>.webm\<close> file,
  the rename step replaces one \<^verbatim>\<open>.webm\<close> name of the listing by
  \<^verbatim>\<open>{device}-{date}.webm\<close> in the form scripts and by \<^verbatim>\<open>passport-{device}-{date}.webm\<close>
  in the passport scripts, where \<^verbatim>\<open>{device}\<close> is \<open>deviceToFilename\<close> of the device name and
  \<^verbatim>\<open>{date}\<close> is the run date as DD-MM-YYYY (for a calendar date with a four-digit year).
  Which file of the listing is renamed is the subject of C10.
\<close>

theorem a_video_takes_the_device_and_date_name:
  assumes "\<exists>f\<in>set files. endsWith f ''.webm''"
      and "getDate now \<le> 31" and "getMonth now \<le> 11"
      and "1000 \<le> getFullYear now" and "getFullYear now \<le> 9999"
  shows "\<exists>old\<in>set files. endsWith old ''.webm''
          \<and> set (rename_video files (newVideoName (deviceToFilename deviceName) (getFormattedDate now))) =
              insert (deviceToFilename deviceName @ ''-''
                        @ DD_MM_YYYY (getDate now) (getMonth now + 1) (getFullYear now) @ ''.webm'')
                     (set files - {old})
          \<and> set (rename_video files (newVideoName_passport (deviceToFilename deviceName) (getFormattedDate now))) =
              insert (''passport-'' @ deviceToFilename deviceName @ ''-''
                        @ DD_MM_YYYY (getDate now) (getMonth now + 1) (getFullYear now) @ ''.webm'')
                     (set files - {old})"
proof -
  from assms(1) have "latestVideo files \<noteq> None"
    by (simp add: latestVideo_None)
  then obtain old where old: "latestVideo files = Some old" by blast
  have date: "getFormattedDate now = DD_MM_YYYY (getDate now) (getMonth now + 1) (getFullYear now)"
    by (rule getFormattedDate_shape [OF assms(2-5)])
  from latestVideo_Some [OF old] have "old \<in> set files" and "endsWith old ''.webm''"
    by simp_all
  moreover have "set (rename_video files (newVideoName (deviceToFilename deviceName) (getFormattedDate now))) =
              insert (deviceToFilename deviceName @ ''-''
                        @ DD_MM_YYYY (getDate now) (getMonth now + 1) (getFullYear now) @ ''.webm'')
                     (set files - {old})"
    by (simp add: set_rename_video [OF old] newVideoName_def date)
  moreover have "set (rename_video files (newVideoName_passport (deviceToFilename deviceName) (getFormattedDate now))) =
              insert (''passport-'' @ deviceToFilename deviceName @ ''-''
                        @ DD_MM_YYYY (getDate now) (getMonth now + 1) (getFullYear now) @ ''.webm'')
                     (set files - {old})"
    by (simp add: set_rename_video [OF old] newVideoName_passport_def date)
  ultimately show ?thesis by blast
qed

theorem a_video_takes_the_device_and_date_name_witness:
  "endsWith ''9b1c3f0e5a7d4c2e8f6a0b1d2c3e4f5a.webm'' ''.webm''
   \<and> getDate today \<le> 31 \<and> getMonth today \<le> 11 \<and> 1000 \<le> getFullYear today \<and> getFullYear today \<le> 9999
   \<and> deviceToFilename ''Galaxy S9+'' = ''galaxy-s9-plus''
   \<and> DD_MM_YYYY (getDate today) (getMonth today + 1) (getFullYear today) = ''02-11-2026''
   \<and> set (rename_video [''9b1c3f0e5a7d4c2e8f6a0b1d2c3e4f5a.webm'']
             (newVideoName (deviceToFilename ''Galaxy S9+'') (getFormattedDate today))) =
       {''galaxy-s9-plus-02-11-2026.webm''}"
proof -
  let ?files = "[''9b1c3f0e5a7d4c2e8f6a0b1d2c3e4f5a.webm'']"
  have w: "endsWith ''9b1c3f0e5a7d4c2e8f6a0b1d2c3e4f5a.webm'' ''.webm''"
    by code_simp
  then have f: "\<exists>f\<in>set ?files. endsWith f ''.webm''" by simp
  have d: "getDate today \<le> 31" "getMonth today \<le> 11" "1000 \<le> getFullYear today" "getFullYear today \<le> 9999"
    by (simp_all add: today_def)
  have n: "deviceToFilename ''Galaxy S9+'' = ''galaxy-s9-plus''"
    by code_simp
  have t: "DD_MM_YYYY (getDate today) (getMonth today + 1) (getFullYear today) = ''02-11-2026''"
    by code_simp
  from a_video_takes_the_device_and_date_name [OF f d, of "''Galaxy S9+''"]
  have "set (rename_video ?files (newVideoName (deviceToFilename ''Galaxy S9+'') (getFormattedDate today))) =
        {''galaxy-s9-plus-02-11-2026.webm''}"
    unfolding n t by auto
  with w d n t show ?thesis by simp
qed

text \<open>
  C10. The file the rename step picks is the greatest \<^verbatim>\<open>.webm\<close> name of the directory in
  string order, and no other, whatever the order of the listing and whenever the files
  were written. So
  when the directory holds a \<^verbatim>\<open>.webm\<close> file whose name sorts after the generated name
  of the video just recorded, such as the renamed video of an earlier device, the
  rename goes to a file other than the new video, and the new video is still in the
  directory under its generated name afterwards; this is the state of the directory
  after the device's \<^verbatim>\<open>try\<close> block returns.
\<close>

theorem rename_takes_the_greatest_name:
  "(latestVideo files = Some v \<longrightarrow>
      v \<in> set files \<and> endsWith v ''.webm'' \<and> (\<forall>f\<in>set files. endsWith f ''.webm'' \<longrightarrow> f \<le> v))
 \<and> (v \<in> set files \<and> endsWith v ''.webm'' \<and> (\<forall>f\<in>set files. endsWith f ''.webm'' \<longrightarrow> f \<le> v) \<longrightarrow>
      latestVideo files = Some v)
 \<and> (set files = set files' \<longrightarrow> latestVideo files = latestVideo files')
 \<and> (generated \<in> set files \<and> endsWith generated ''.webm''
      \<and> old \<in> set files \<and> endsWith old ''.webm'' \<and> generated < old \<longrightarrow>
      (\<exists>target. latestVideo files = Some target \<and> target \<noteq> generated \<and> old \<le> target
         \<and> set (rename_video files newName) = insert newName (set files - {target})
         \<and> generated \<in> set (rename_video files newName)))
 \<and> (fst (device_try lookup attempt e date scs d files) = Inr ()
      \<and> endsWith (video e d) ''.webm''
      \<and> old \<in> set files \<and> endsWith old ''.webm'' \<and> video e d < old \<longrightarrow>
      latestVideo (save_video files (video e d)) \<noteq> Some (video e d)
      \<and> video e d \<in> set (snd (snd (device_try lookup attempt e date scs d files))))"
proof (intro conjI impI)
  assume "latestVideo files = Some v"
  from latestVideo_Some [OF this] show "v \<in> set files" and "endsWith v ''.webm''"
    and "\<forall>f\<in>set files. endsWith f ''.webm'' \<longrightarrow> f \<le> v"
    by simp_all
next
  assume "v \<in> set files \<and> endsWith v ''.webm'' \<and> (\<forall>f\<in>set files. endsWith f ''.webm'' \<longrightarrow> f \<le> v)"
  then show "latestVideo files = Some v" by (intro latestVideo_greatest) simp_all
next
  assume "set files = set files'"
  then show "latestVideo files = latestVideo files'" by (rule latestVideo_set)
next
  assume a: "generated \<in> set files \<and> endsWith generated ''.webm''
      \<and> old \<in> set files \<and> endsWith old ''.webm'' \<and> generated < old"
  then have "latestVideo files \<noteq> None"
    by (auto simp: latestVideo_None)
  then obtain target where t: "latestVideo files = Some target" by blast
  from latestVideo_Some [OF t] a have le: "old \<le> target" by simp
  with a have ne: "target \<noteq> generated" by auto
  have s: "set (rename_video files newName) = insert newName (set files - {target})"
    by (rule set_rename_video [OF t])
  with a ne have "generated \<in> set (rename_video files newName)" by auto
  with t ne le s show "\<exists>target. latestVideo files = Some target \<and> target \<noteq> generated \<and> old \<le> target
         \<and> set (rename_video files newName) = insert newName (set files - {target})
         \<and> generated \<in> set (rename_video files newName)"
    by blast
next
  assume a: "fst (device_try lookup attempt e date scs d files) = Inr ()
      \<and> endsWith (video e d) ''.webm''
      \<and> old \<in> set files \<and> endsWith old ''.webm'' \<and> video e d < old"
  let ?dir = "save_video files (video e d)"
  from a have "latestVideo ?dir \<noteq> None"
    by (auto simp: latestVideo_None save_video_def)
  then obtain target where t: "latestVideo ?dir = Some target" by blast
  from a have "old \<in> set ?dir" by (simp add: save_video_def)
  with latestVideo_Some [OF t] a have "old \<le> target" by simp
  with a have ne: "target \<noteq> video e d" by auto
  with t show "latestVideo ?dir \<noteq> Some (video e d)" by simp
  have "video e d \<in> set ?dir" by (simp add: save_video_def)
  with ne have "video e d \<in> set (rename_video ?dir (newVideoName (deviceToFilename d) date))"
    by (simp add: set_rename_video [OF t])
  with a show "video e d \<in> set (snd (snd (device_try lookup attempt e date scs d files)))"
    by (simp add: device_try_files)
qed

theorem rename_takes_the_greatest_name_witness:
  "''9b1c3f0e5a7d4c2e8f6a0b1d2c3e4f5a.webm'' < ''iphone-se-02-11-2026.webm''
   \<and> latestVideo [''iphone-se-02-11-2026.webm'', ''9b1c3f0e5a7d4c2e8f6a0b1d2c3e4f5a.webm''] =
       Some ''iphone-se-02-11-2026.webm''
   \<and> set (rename_video [''iphone-se-02-11-2026.webm'', ''9b1c3f0e5a7d4c2e8f6a0b1d2c3e4f5a.webm'']
             ''iphone-13-pro-02-11-2026.webm'') =
       {''iphone-13-pro-02-11-2026.webm'', ''9b1c3f0e5a7d4c2e8f6a0b1d2c3e4f5a.webm''}"
proof -
  let ?old = "''iphone-se-02-11-2026.webm''" and ?gen = "''9b1c3f0e5a7d4c2e8f6a0b1d2c3e4f5a.webm''"
  let ?files = "[?old, ?gen]"
  have lt: "?gen < ?old" by simp
  have w: "endsWith ?gen ''.webm''" "endsWith ?old ''.webm''" by code_simp+
  have l: "latestVideo ?files = Some ?old" by code_simp
  from rename_takes_the_greatest_name
         [of ?files ?old ?files ?gen ?old "''iphone-13-pro-02-11-2026.webm''"
             lookup_redirect scenario_try_redirect env_stays "''02-11-2026''" "[]" "''iPhone 13 Pro''"]
    lt w l
  have "set (rename_video ?files ''iphone-13-pro-02-11-2026.webm'') =
          {''iphone-13-pro-02-11-2026.webm'', ?gen}"
    by auto
  with lt l show ?thesis by simp
qed

section \<open>Reading the results file back\<close>

text \<open>
  The printer and the parser on two small texts: a device entry as the scripts write
  it, and a text with optional white space and a repeated key.
\<close>

lemma JSON_stringify_example:
  \<open>JSON_stringify (JObject [(''Pixel 5'', JObject [(''error'', JString ''no''), (''errorMessage'', JNull)])]) =
     ''{'' @ [CHR 0x0A] @ ''  "Pixel 5": {'' @ [CHR 0x0A] @ ''    "error": "no",'' @ [CHR 0x0A]
       @ ''    "errorMessage": null'' @ [CHR 0x0A] @ ''  }'' @ [CHR 0x0A] @ ''}''\<close>
  by code_simp

lemma JSON_parse_example:
  \<open>JSON_parse (''{ "a" : "x", "b":{}, "a": null }'') = Some (JObject [(''a'', JNull), (''b'', JObject [])])\<close>
  by code_simp

lemma hex_value_0: "hex_value CHR ''0'' = Some 0"
  by code_simp

lemma control_code_unit:
  "\<forall>n\<in>set [0..<32]. code_unit CHR ''0'' CHR ''0'' (hex_digits ! (n div 16)) (hex_digits ! (n mod 16)) = Some (char_of n)"
  by code_simp

lemma code_unit_of_control:
  assumes "of_char c < (32::nat)"
  shows "code_unit CHR ''0'' CHR ''0'' (hex_digits ! (of_char c div 16)) (hex_digits ! (of_char c mod 16)) = Some c"
proof -
  from assms have "(of_char c :: nat) \<in> set [0..<32]" by simp
  with control_code_unit
  have "code_unit CHR ''0'' CHR ''0'' (hex_digits ! (of_char c div 16)) (hex_digits ! (of_char c mod 16)) =
          Some (char_of (of_char c :: nat))"
    by blast
  then show ?thesis by simp
qed

lemma escape_char_plain:
  assumes "\<not> of_char c < (32::nat)" and "c \<noteq> CHR 0x22" and "c \<noteq> CHR 0x5C"
  shows "escape_char c = [c]"
proof -
  from assms(1) have "c \<noteq> CHR 0x08" "c \<noteq> CHR 0x09" "c \<noteq> CHR 0x0A" "c \<noteq> CHR 0x0C" "c \<noteq> CHR 0x0D"
    by auto
  with assms show ?thesis by (simp add: escape_char_def)
qed

lemma escape_char_control:
  assumes "of_char c < (32::nat)"
      and "c \<noteq> CHR 0x08" "c \<noteq> CHR 0x09" "c \<noteq> CHR 0x0A" "c \<noteq> CHR 0x0C" "c \<noteq> CHR 0x0D"
  shows "escape_char c = [CHR 0x5C, CHR ''u'', CHR ''0'', CHR ''0'',
            hex_digits ! (of_char c div 16), hex_digits ! (of_char c mod 16)]"
proof -
  from assms(1) have "c \<noteq> CHR 0x22" "c \<noteq> CHR 0x5C" by auto
  with assms show ?thesis by (simp add: escape_char_def)
qed

lemma parse_escape_char:
  "parse_chars (escape_char c @ x) =
     (case parse_chars x of None \<Rightarrow> None | Some (t, r) \<Rightarrow> Some (c # t, r))"
proof -
  consider (quote) "c = CHR 0x22" | (backslash) "c = CHR 0x5C"
    | (b) "c = CHR 0x08" | (t) "c = CHR 0x09" | (n) "c = CHR 0x0A" | (f) "c = CHR 0x0C" | (r) "c = CHR 0x0D"
    | (control) "of_char c < (32::nat)"
        "c \<noteq> CHR 0x08" "c \<noteq> CHR 0x09" "c \<noteq> CHR 0x0A" "c \<noteq> CHR 0x0C" "c \<noteq> CHR 0x0D"
    | (plain) "\<not> of_char c < (32::nat)" "c \<noteq> CHR 0x22" "c \<noteq> CHR 0x5C"
    by blast
  then show ?thesis
  proof cases
    case quote
    show ?thesis unfolding quote by (simp add: escape_char_def unescape_def)
  next
    case backslash
    show ?thesis unfolding backslash by (simp add: escape_char_def unescape_def)
  next
    case b
    show ?thesis unfolding b by (simp add: escape_char_def unescape_def)
  next
    case t
    show ?thesis unfolding t by (simp add: escape_char_def unescape_def)
  next
    case n
    show ?thesis unfolding n by (simp add: escape_char_def unescape_def)
  next
    case f
    show ?thesis unfolding f by (simp add: escape_char_def unescape_def)
  next
    case r
    show ?thesis unfolding r by (simp add: escape_char_def unescape_def)
  next
    case control
    then show ?thesis
      by (simp add: escape_char_control code_unit_of_control)
  next
    case plain
    then show ?thesis
      by (simp add: escape_char_plain)
  qed
qed

lemma parse_quoted:
  "parse_chars (concat (map escape_char s) @ CHR 0x22 # rest) = Some (s, rest)"
  by (induction s) (simp_all add: parse_escape_char)

lemma skip_ws_newline [simp]: "skip_ws (CHR 0x0A # x) = skip_ws x"
  by (simp add: skip_ws_def json_ws_def)

lemma skip_ws_space [simp]: "skip_ws (CHR '' '' # x) = skip_ws x"
  by (simp add: skip_ws_def json_ws_def)

lemma skip_ws_indent [simp]: "skip_ws (indent n @ x) = skip_ws x"
  by (induction n) (simp_all add: indent_def)

lemma skip_ws_quote [simp]: "skip_ws (CHR 0x22 # x) = CHR 0x22 # x"
  by (simp add: skip_ws_def json_ws_def)

lemma skip_ws_brace [simp]: "skip_ws (CHR ''{'' # x) = CHR ''{'' # x"
  by (simp add: skip_ws_def json_ws_def)

lemma skip_ws_close [simp]: "skip_ws (CHR ''}'' # x) = CHR ''}'' # x"
  by (simp add: skip_ws_def json_ws_def)

lemma skip_ws_colon [simp]: "skip_ws (CHR '':'' # x) = CHR '':'' # x"
  by (simp add: skip_ws_def json_ws_def)

lemma skip_ws_comma [simp]: "skip_ws (CHR '','' # x) = CHR '','' # x"
  by (simp add: skip_ws_def json_ws_def)

lemma skip_ws_n [simp]: "skip_ws (CHR ''n'' # x) = CHR ''n'' # x"
  by (simp add: skip_ws_def json_ws_def)

lemma parse_value_space: "parse_value f (CHR '' '' # x) = parse_value f x"
  by (cases f) simp_all

lemma parse_members_newline: "parse_members f acc (CHR 0x0A # indent m @ x) = parse_members f acc x"
  by (cases f) simp_all

lemma parse_member:
  assumes "parse_value f (stringify m v @ y) = Some (v, y)"
  shows "parse_members (Suc f) acc (QuoteJSONString k @ '': '' @ stringify m v @ y) =
     (case skip_ws y of
        [] \<Rightarrow> None
      | c3 # r4 \<Rightarrow>
          if c3 = CHR '','' then parse_members f (assign acc k v) r4
          else if c3 = CHR ''}'' then Some (JObject (assign acc k v), r4)
          else None)"
  using assms by (simp add: QuoteJSONString_def parse_quoted parse_value_space)

lemma parse_object:
  assumes "parse_members f [] (stringify_members (n + 2) (p # ps) @ CHR 0x0A # indent n @ CHR ''}'' # rest) = Some r"
  shows "parse_value (Suc f) (stringify n (JObject (p # ps)) @ rest) = Some r"
proof -
  obtain k v where p: "p = (k, v)" by (cases p)
  have "skip_ws (indent (n + 2) @ stringify_members (n + 2) (p # ps) @ CHR 0x0A # indent n @ CHR ''}'' # rest) =
          CHR 0x22 # (concat (map escape_char k) @ [CHR 0x22]) @ '': '' @ stringify (n + 2) v
            @ (if ps = [] then [] else '','' @ [CHR 0x0A] @ indent (n + 2) @ stringify_members (n + 2) ps)
            @ CHR 0x0A # indent n @ CHR ''}'' # rest"
    by (simp add: p QuoteJSONString_def)
  moreover have "parse_members f [] (CHR 0x0A # indent (n + 2) @ stringify_members (n + 2) (p # ps) @ CHR 0x0A # indent n @ CHR ''}'' # rest) = Some r"
    using assms by (simp only: parse_members_newline)
  ultimately show ?thesis
    by simp
qed

lemma round_trip_induct:
  "(well_formed v \<longrightarrow> (\<forall>f rest. need v \<le> f \<longrightarrow> parse_value f (stringify n v @ rest) = Some (v, rest)))"
  "(ps \<noteq> [] \<and> well_formed_values ps \<longrightarrow>
      (\<forall>f acc tail rest. need_members ps \<le> f \<and> skip_ws tail = CHR ''}'' # rest \<longrightarrow>
         parse_members f acc (stringify_members m ps @ tail) =
           Some (JObject (foldl (\<lambda>obj (k, v). assign obj k v) acc ps), rest)))"
proof (induction n v and m ps rule: stringify_stringify_members.induct)
  case (1 n)
  show ?case
  proof (intro impI allI)
    fix f rest assume "need JNull \<le> f"
    then obtain g where "f = Suc g" by (cases f) auto
    then show "parse_value f (stringify n JNull @ rest) = Some (JNull, rest)" by simp
  qed
next
  case (2 n s)
  show ?case
  proof (intro impI allI)
    fix f rest assume "need (JString s) \<le> f"
    then obtain g where "f = Suc g" by (cases f) auto
    then show "parse_value f (stringify n (JString s) @ rest) = Some (JString s, rest)"
      by (simp add: QuoteJSONString_def parse_quoted)
  qed
next
  case (3 n)
  show ?case
  proof (intro impI allI)
    fix f rest assume "need (JObject []) \<le> f"
    then obtain g where "f = Suc g" by (cases f) auto
    then show "parse_value f (stringify n (JObject []) @ rest) = Some (JObject [], rest)" by simp
  qed
next
  case (4 n p ps)
  show ?case
  proof (intro impI allI)
    fix f rest
    assume wf: "well_formed (JObject (p # ps))" and fuel: "need (JObject (p # ps)) \<le> f"
    then obtain g where f: "f = Suc g" and g: "need_members (p # ps) \<le> g" by (cases f) auto
    from wf have vals: "well_formed_values (p # ps)" and keys: "distinct (map fst (p # ps))"
      by simp_all
    have tail: "skip_ws (CHR 0x0A # indent n @ CHR ''}'' # rest) = CHR ''}'' # rest"
      by simp
    from "4.IH" vals g tail
    have "parse_members g [] (stringify_members (n + 2) (p # ps) @ CHR 0x0A # indent n @ CHR ''}'' # rest) =
            Some (JObject (foldl (\<lambda>obj (k, v). assign obj k v) [] (p # ps)), rest)"
      by blast
    moreover have "foldl (\<lambda>obj (k, v). assign obj k v) [] (p # ps) = p # ps"
      using foldl_assign_distinct [of "[]" "p # ps"] keys by simp
    ultimately have "parse_members g [] (stringify_members (n + 2) (p # ps) @ CHR 0x0A # indent n @ CHR ''}'' # rest) =
            Some (JObject (p # ps), rest)"
      by (simp only:)
    then show "parse_value f (stringify n (JObject (p # ps)) @ rest) = Some (JObject (p # ps), rest)"
      unfolding f by (rule parse_object)
  qed
next
  case (5 m)
  show ?case by simp
next
  case (6 m k v ps)
  show ?case
  proof (intro impI allI)
    fix f acc tail rest
    assume a: "(k, v) # ps \<noteq> [] \<and> well_formed_values ((k, v) # ps)"
      and b: "need_members ((k, v) # ps) \<le> f \<and> skip_ws tail = CHR ''}'' # rest"
    then obtain g where f: "f = Suc g" and gv: "need v \<le> g" and gps: "need_members ps \<le> g"
      by (cases f) auto
    from a have wv: "well_formed v" and wps: "well_formed_values ps" by simp_all
    let ?y = "(if ps = [] then [] else '','' @ [CHR 0x0A] @ indent m @ stringify_members m ps) @ tail"
    have shape: "stringify_members m ((k, v) # ps) @ tail = QuoteJSONString k @ '': '' @ stringify m v @ ?y"
      by simp
    from "6.IH"(1) wv gv have "parse_value g (stringify m v @ ?y) = Some (v, ?y)" by blast
    then have step: "parse_members (Suc g) acc (QuoteJSONString k @ '': '' @ stringify m v @ ?y) =
       (case skip_ws ?y of
          [] \<Rightarrow> None
        | c3 # r4 \<Rightarrow>
            if c3 = CHR '','' then parse_members g (assign acc k v) r4
            else if c3 = CHR ''}'' then Some (JObject (assign acc k v), r4)
            else None)"
      by (rule parse_member)
    show "parse_members f acc (stringify_members m ((k, v) # ps) @ tail) =
            Some (JObject (foldl (\<lambda>obj (k, v). assign obj k v) acc ((k, v) # ps)), rest)"
    proof (cases "ps = []")
      case True
      with b have "skip_ws ?y = CHR ''}'' # rest" by simp
      with True show ?thesis
        unfolding f shape step by simp
    next
      case False
      then have y: "skip_ws ?y = CHR '','' # CHR 0x0A # indent m @ stringify_members m ps @ tail"
        by simp
      from "6.IH"(2) [OF False] False wps gps b
      have "parse_members g (assign acc k v) (stringify_members m ps @ tail) =
              Some (JObject (foldl (\<lambda>obj (k, v). assign obj k v) (assign acc k v) ps), rest)"
        by blast
      then have "parse_members g (assign acc k v) (CHR 0x0A # indent m @ stringify_members m ps @ tail) =
              Some (JObject (foldl (\<lambda>obj (k, v). assign obj k v) (assign acc k v) ps), rest)"
        by (simp only: parse_members_newline)
      then show ?thesis
        unfolding f shape step y by simp
    qed
  qed
qed


lemma need_le_length:
  "need v \<le> length (stringify n v)"
  "need_members ps \<le> length (stringify_members m ps)"
  by (induction n v and m ps rule: stringify_stringify_members.induct)
     (auto simp: QuoteJSONString_def)

lemma parse_stringify:
  assumes "well_formed v"
  shows "JSON_parse (JSON_stringify v) = Some v"
proof -
  have "need v \<le> length (JSON_stringify v)"
    unfolding JSON_stringify_def by (rule need_le_length)
  with round_trip_induct(1) [of v 0] assms
  have "parse_value (length (JSON_stringify v)) (stringify 0 v @ []) = Some (v, [])"
    by blast
  then show ?thesis
    by (simp add: JSON_parse_def JSON_stringify_def skip_ws_def)
qed

lemma distinct_assign:
  "distinct (map fst ps) \<Longrightarrow> distinct (map fst (assign ps k v))"
  by (simp add: keys_assign)

lemma well_formed_values_append [simp]:
  "well_formed_values (ps @ qs) = (well_formed_values ps \<and> well_formed_values qs)"
  by (induction ps) auto

lemma well_formed_values_assign:
  "well_formed_values ps \<Longrightarrow> well_formed v \<Longrightarrow> well_formed_values (assign ps k v)"
  by (induction ps) auto

lemma well_formed_foldl_assign:
  "distinct (map fst acc) \<Longrightarrow> well_formed_values acc \<Longrightarrow> well_formed_values ws \<Longrightarrow>
   distinct (map fst (foldl (\<lambda>obj (k, v). assign obj k v) acc ws))
   \<and> well_formed_values (foldl (\<lambda>obj (k, v). assign obj k v) acc ws)"
proof (induction ws arbitrary: acc)
  case Nil
  then show ?case by simp
next
  case (Cons w ws)
  obtain k v where w: "w = (k, v)" by (cases w)
  from Cons.prems w have "distinct (map fst (assign acc k v))" and "well_formed_values (assign acc k v)"
    and "well_formed_values ws"
    by (simp_all add: distinct_assign well_formed_values_assign)
  from Cons.IH [OF this] w show ?case by simp
qed

lemma well_formed_object_of:
  "well_formed_values ws \<Longrightarrow> well_formed (JObject (object_of ws))"
  using well_formed_foldl_assign [of "[]" ws] by (simp add: object_of_def)

lemma well_formed_toJS [simp]: "well_formed (toJS x)"
  by (cases x) (simp_all add: toJS_def)

lemma well_formed_verdict_redirect: "well_formed (snd (verdict_redirect dfn sc redirected u))"
  by (simp add: verdict_redirect_def Let_def)

lemma well_formed_verdict_message: "well_formed (snd (verdict_message dfn sc fs fe u))"
  by (simp add: verdict_message_def Let_def)

lemma well_formed_record_verdict:
  "well_formed (snd vd) \<Longrightarrow> well_formed_values (catch_scenario k (record_verdict p k vd []))"
  by (simp add: record_verdict_def catch_scenario_def error_outcome_def split: sum.splits option.splits)

lemma well_formed_entry_redirect:
  "well_formed_values (catch_scenario (name sc) (scenario_try_redirect p t dfn sc []))"
proof (cases "submit_form p (emailToUse sc t)")
  case (Inl m)
  then show ?thesis
    by (simp add: scenario_try_redirect_def catch_scenario_def error_outcome_def)
next
  case (Inr u)
  then show ?thesis
    by (simp add: scenario_try_redirect_def Let_def well_formed_record_verdict
        well_formed_verdict_redirect)
qed

lemma well_formed_entry_message:
  "well_formed_values (catch_scenario (name sc) (scenario_try_message p t dfn sc []))"
proof (cases "submit_form p (emailToUse sc t)")
  case (Inl m)
  then show ?thesis
    by (simp add: scenario_try_message_def catch_scenario_def error_outcome_def)
next
  case (Inr u)
  then show ?thesis
    by (simp add: scenario_try_message_def Let_def well_formed_record_verdict
        well_formed_verdict_message)
qed

lemma well_formed_entries:
  assumes "script_body attempt"
  shows "well_formed_values (scenario_entries attempt e d sc)"
  using assms well_formed_entry_redirect well_formed_entry_message
  unfolding script_body_def scenario_entries_def by metis

lemma well_formed_scenario_loop:
  assumes "script_body attempt"
  shows "well_formed_values (snd (scenario_loop attempt e d scs []))"
proof -
  have "well_formed_values (concat (map (scenario_entries attempt e d) xs))" for xs
    by (induction xs) (simp_all add: well_formed_entries [OF assms])
  then show ?thesis by (simp add: scenario_loop_eq [OF assms])
qed

lemma well_formed_device_writes:
  assumes "script_body attempt"
  shows "well_formed_values (fst (device_writes lookup attempt e date scs d files))"
  by (simp add: device_writes_eq well_formed_scenario_loop [OF assms] split: sum.splits)

lemma well_formed_device_loop:
  assumes "script_body attempt"
  shows "distinct (map fst res) \<Longrightarrow> well_formed_values res \<Longrightarrow>
         distinct (map fst (fst (device_loop lookup attempt e date scs ds (res, files))))
         \<and> well_formed_values (fst (device_loop lookup attempt e date scs ds (res, files)))"
proof (induction ds arbitrary: res files)
  case Nil
  then show ?case by simp
next
  case (Cons a ds)
  obtain ws files' where w: "device_writes lookup attempt e date scs a files = (ws, files')"
    by (cases "device_writes lookup attempt e date scs a files")
  with well_formed_device_writes [OF assms, of lookup e date scs a files]
  have "well_formed_values ws" by simp
  then have "well_formed (JObject (object_of ws))" by (rule well_formed_object_of)
  with Cons.prems have "distinct (map fst (assign res a (JObject (object_of ws))))"
    and "well_formed_values (assign res a (JObject (object_of ws)))"
    by (simp_all add: distinct_assign well_formed_values_assign del: well_formed.simps)
  from Cons.IH [OF this] w show ?case by simp
qed

text \<open>
  C9. The text that a run writes to the results file parses back to the results object
  itself: \<open>JSON_parse\<close> after \<open>JSON_stringify\<close> is the identity on the
  \<^verbatim>\<open>testResults\<close> of every run of either script, whatever the browser answered.
\<close>

theorem results_file_can_be_read_back:
  "JSON_parse (JSON_stringify (JObject (fst (run_redirect e now files)))) =
     Some (JObject (fst (run_redirect e now files)))
   \<and> JSON_parse (JSON_stringify (JObject (fst (run_message e now files)))) =
     Some (JObject (fst (run_message e now files)))"
proof -
  have "well_formed (JObject (fst (run_redirect e now files)))"
    unfolding run_redirect_def
    using well_formed_device_loop [of scenario_try_redirect "[]"]
    by (simp add: script_body_def)
  moreover have "well_formed (JObject (fst (run_message e now files)))"
    unfolding run_message_def
    using well_formed_device_loop [of scenario_try_message "[]"]
    by (simp add: script_body_def)
  ultimately show ?thesis
    by (simp only: parse_stringify)
qed

end
